theory Spec2Isabelle
  imports Main "HOL-Library.Word"
begin

section \<open>Block ranges (block/range.go)\<close>

text \<open>
  Go's \<open>uint64\<close> is a 64-bit word: \<open>+\<close> and \<open>-\<close> wrap around, comparisons are
  unsigned.  A \<open>*Range\<close> is a record of its two fields.
\<close>

type_synonym uint64 = "64 word"

record Range =
  StartBlock :: uint64
  ExclusiveEndBlock :: uint64

text \<open>\<open>Contains\<close> takes a block reference; only its number is read.\<close>

definition Contains :: "Range \<Rightarrow> uint64 \<Rightarrow> bool" where
  "Contains r num = (num \<ge> StartBlock r \<and> num < ExclusiveEndBlock r)"

definition Next :: "Range \<Rightarrow> uint64 \<Rightarrow> Range" where
  "Next r sz = \<lparr>StartBlock = ExclusiveEndBlock r, ExclusiveEndBlock = ExclusiveEndBlock r + sz\<rparr>"

definition Previous :: "Range \<Rightarrow> uint64 \<Rightarrow> Range" where
  "Previous r sz = \<lparr>StartBlock = StartBlock r - sz, ExclusiveEndBlock = StartBlock r\<rparr>"

definition Equals :: "Range \<Rightarrow> Range \<Rightarrow> bool" where
  "Equals r other =
    (StartBlock r = StartBlock other \<and> ExclusiveEndBlock r = ExclusiveEndBlock other)"

definition Size :: "Range \<Rightarrow> uint64" where
  "Size r = ExclusiveEndBlock r - StartBlock r"

text \<open>
  The body of the \<open>for { ... }\<close> loop of \<open>Split\<close>.  One call is one iteration: the
  chunk is appended, the loop breaks when \<open>currentEnd >= r.ExclusiveEndBlock\<close>, and
  otherwise the two cursors advance, the new end clamped to the range's end.  The loop
  has no bound of its own, so the result is an option: \<open>None\<close> is a loop that never
  breaks.
\<close>

partial_function (option) Split_loop ::
  "Range \<Rightarrow> uint64 \<Rightarrow> uint64 \<Rightarrow> uint64 \<Rightarrow> Range list \<Rightarrow> Range list option" where
  "Split_loop r chunkSize currentStart currentEnd res =
    (let res1 = res @ [\<lparr>StartBlock = currentStart, ExclusiveEndBlock = currentEnd\<rparr>] in
     if currentEnd \<ge> ExclusiveEndBlock r then Some res1
     else let currentStart1 = currentEnd;
              currentEnd1 = currentStart1 + chunkSize;
              currentEnd2 = (if currentEnd1 > ExclusiveEndBlock r
                             then ExclusiveEndBlock r else currentEnd1)
          in Split_loop r chunkSize currentStart1 currentEnd2 res1)"

definition Split :: "Range \<Rightarrow> uint64 \<Rightarrow> Range list option" where
  "Split r chunkSize =
    (if ExclusiveEndBlock r - StartBlock r \<le> chunkSize then Some ([] @ [r])
     else Split_loop r chunkSize (StartBlock r) (StartBlock r + chunkSize) [])"

text \<open>
  Modelled from the spec: \<open>block.NewRange\<close> is called by the work planner but is not
  part of the sources at hand.  The spec's "half-open interval [start, endExclusive)"
  makes it the plain constructor.
\<close>

definition NewRange :: "uint64 \<Rightarrow> uint64 \<Rightarrow> Range" where
  "NewRange startBlock exclusiveEndBlock =
    \<lparr>StartBlock = startBlock, ExclusiveEndBlock = exclusiveEndBlock\<rparr>"

text \<open>
  Modelled from the spec: \<open>Ranges.Merged\<close> is called by
  \<open>WorkUnit.initialProcessedPartials\<close> but is not part of the sources at hand.  The
  spec: a sorted collection supports merge, which coalesces adjacent and overlapping
  ranges.
\<close>

fun Merged :: "Range list \<Rightarrow> Range list" where
  "Merged [] = []"
| "Merged [r] = [r]"
| "Merged (a # b # rest) =
    (if StartBlock b \<le> ExclusiveEndBlock a
     then Merged (\<lparr>StartBlock = StartBlock a,
                   ExclusiveEndBlock = max (ExclusiveEndBlock a) (ExclusiveEndBlock b)\<rparr> # rest)
     else a # Merged (b # rest))"

subsection \<open>Vocabulary for the properties of \<open>Split\<close>\<close>

text \<open>The block numbers of a range, read off \<open>Contains\<close>.\<close>

definition blocks :: "Range \<Rightarrow> uint64 set" where
  "blocks r = {num. Contains r num}"

text \<open>
  \<open>contiguous a b rs\<close>: the first range of \<open>rs\<close> starts at \<open>a\<close>, each following one
  starts where its predecessor ends, the last one ends at \<open>b\<close>, and no range is
  inverted.
\<close>

fun contiguous :: "uint64 \<Rightarrow> uint64 \<Rightarrow> Range list \<Rightarrow> bool" where
  "contiguous a b [] = (a = b)"
| "contiguous a b (x # xs) =
    (StartBlock x = a \<and> a \<le> ExclusiveEndBlock x \<and> contiguous (ExclusiveEndBlock x) b xs)"

text \<open>\<open>chunked k rs\<close>: every range but the last has size \<open>k\<close>, the last at most \<open>k\<close>.\<close>

fun chunked :: "uint64 \<Rightarrow> Range list \<Rightarrow> bool" where
  "chunked k [] = True"
| "chunked k [x] = (Size x \<le> k)"
| "chunked k (x # y # ys) = (Size x = k \<and> chunked k (y # ys))"

section \<open>Work planning (package orchestrator)\<close>

text \<open>
  Modelled from the spec: the \<open>Snapshots\<close> catalog and its two queries are used by
  the planner but are not part of the sources at hand.  The spec: a catalog of the
  existing complete and partial store files of a module; the planner locates "the
  latest complete snapshot S with S.end <= requestStart (or none)" and classifies a
  range as present when "a partial file exists on storage" for it.
\<close>

record Snapshots =
  Completes :: "Range list"
  Partials :: "Range list"

fun LastCompleteSnapshotBefore_list :: "Range list \<Rightarrow> uint64 \<Rightarrow> Range option" where
  "LastCompleteSnapshotBefore_list [] blockNum = None"
| "LastCompleteSnapshotBefore_list (c # cs) blockNum =
    (case LastCompleteSnapshotBefore_list cs blockNum of
       None \<Rightarrow> if ExclusiveEndBlock c \<le> blockNum then Some c else None
     | Some d \<Rightarrow>
         if ExclusiveEndBlock c \<le> blockNum \<and> ExclusiveEndBlock d < ExclusiveEndBlock c
         then Some c else Some d)"

definition LastCompleteSnapshotBefore :: "Snapshots \<Rightarrow> uint64 \<Rightarrow> Range option" where
  "LastCompleteSnapshotBefore s blockNum = LastCompleteSnapshotBefore_list (Completes s) blockNum"

definition ContainsPartial :: "Snapshots \<Rightarrow> Range \<Rightarrow> bool" where
  "ContainsPartial s r = list_ex (\<lambda>file. Equals file r) (Partials s)"

record WorkUnit =
  modName :: string
  initialStoreFile :: "Range option"
  partialsMissing :: "Range list"
  partialsPresent :: "Range list"

text \<open>
  How a call of the planner can end without returning a work unit: the explicit
  \<open>panic\<close> of \<open>StoresSplitWork\<close>, and Go's run-time panic on \<open>ptr % 0\<close>.
\<close>

datatype abort = SavedLastStoreBeforeInitBlock | IntegerDivideByZero

definition minOf :: "uint64 \<Rightarrow> uint64 \<Rightarrow> uint64" where
  "minOf a b = (if a < b then a else b)"

text \<open>
  The \<open>for ptr := backProcessStartBlock; ptr < requestStartBlock; { ... }\<close> loop, which
  \<open>MapsSplitWork\<close> and \<open>StoresSplitWork\<close> both contain word for word.  \<open>None\<close> is a
  loop that never ends.
\<close>

partial_function (option) partialsLoop ::
  "Snapshots \<Rightarrow> uint64 \<Rightarrow> uint64 \<Rightarrow> uint64 \<Rightarrow> WorkUnit \<Rightarrow> (abort + WorkUnit) option" where
  "partialsLoop snapshots saveInterval requestStartBlock ptr work =
    (if ptr < requestStartBlock then
       if saveInterval = 0 then Some (Inl IntegerDivideByZero)
       else
         let end = minOf (ptr - ptr mod saveInterval + saveInterval) requestStartBlock;
             newPartial = NewRange ptr end;
             work1 = (if \<not> ContainsPartial snapshots newPartial
                      then work\<lparr>partialsMissing := partialsMissing work @ [newPartial]\<rparr>
                      else work\<lparr>partialsPresent := partialsPresent work @ [newPartial]\<rparr>)
         in partialsLoop snapshots saveInterval requestStartBlock end work1
     else Some (Inr work))"

definition MapsSplitWork ::
  "string \<Rightarrow> uint64 \<Rightarrow> uint64 \<Rightarrow> Snapshots \<Rightarrow> (abort + WorkUnit) option" where
  "MapsSplitWork name saveInterval requestStartBlock snapshots =
    (let work = \<lparr>modName = name, initialStoreFile = None,
                  partialsMissing = [], partialsPresent = []\<rparr>;
         completeSnapshot = LastCompleteSnapshotBefore snapshots requestStartBlock
     in case completeSnapshot of
          None \<Rightarrow> partialsLoop snapshots saveInterval requestStartBlock requestStartBlock work
        | Some c \<Rightarrow>
            let backProcessStartBlock = ExclusiveEndBlock c;
                work1 = work\<lparr>initialStoreFile :=
                          Some (NewRange requestStartBlock (ExclusiveEndBlock c))\<rparr>
            in if ExclusiveEndBlock c = requestStartBlock then Some (Inr work1)
               else partialsLoop snapshots saveInterval requestStartBlock
                      backProcessStartBlock work1)"

definition StoresSplitWork ::
  "string \<Rightarrow> uint64 \<Rightarrow> uint64 \<Rightarrow> uint64 \<Rightarrow> Snapshots \<Rightarrow> (abort + WorkUnit) option" where
  "StoresSplitWork name storeSaveInterval modInitBlock incomingReqStartBlock snapshots =
    (let work = \<lparr>modName = name, initialStoreFile = None,
                  partialsMissing = [], partialsPresent = []\<rparr>
     in if incomingReqStartBlock \<le> modInitBlock then Some (Inr work)
        else
          let completeSnapshot = LastCompleteSnapshotBefore snapshots incomingReqStartBlock
          in case completeSnapshot of
               None \<Rightarrow> partialsLoop snapshots storeSaveInterval incomingReqStartBlock
                         modInitBlock work
             | Some c \<Rightarrow>
                 if ExclusiveEndBlock c \<le> modInitBlock
                 then Some (Inl SavedLastStoreBeforeInitBlock)
                 else
                   let backProcessStartBlock = ExclusiveEndBlock c;
                       work1 = work\<lparr>initialStoreFile :=
                                 Some (NewRange modInitBlock (ExclusiveEndBlock c))\<rparr>
                   in if ExclusiveEndBlock c = incomingReqStartBlock then Some (Inr work1)
                      else partialsLoop snapshots storeSaveInterval incomingReqStartBlock
                             backProcessStartBlock work1)"

text \<open>
  The spec's wording of the walk, for comparison with \<open>partialsLoop\<close>: from
  \<open>backProcessStart\<close> to \<open>requestStart\<close>, ranges
  \<open>[ptr, min(alignUp(ptr, saveInterval), requestStart))\<close>.  The second guard stops
  the walk where the aligned end would not lie ahead of \<open>ptr\<close>.
\<close>

definition spec_alignUp :: "uint64 \<Rightarrow> uint64 \<Rightarrow> uint64" where
  "spec_alignUp ptr saveInterval = ptr - ptr mod saveInterval + saveInterval"

function spec_walk :: "uint64 \<Rightarrow> uint64 \<Rightarrow> uint64 \<Rightarrow> Range list" where
  "spec_walk saveInterval requestStart ptr =
    (if ptr < requestStart \<and> ptr < minOf (spec_alignUp ptr saveInterval) requestStart
     then \<lparr>StartBlock = ptr,
           ExclusiveEndBlock = minOf (spec_alignUp ptr saveInterval) requestStart\<rparr>
          # spec_walk saveInterval requestStart
              (minOf (spec_alignUp ptr saveInterval) requestStart)
     else [])"
  by pat_completeness auto
termination
  by (relation "measure (\<lambda>(saveInterval, requestStart, ptr). unat requestStart - unat ptr)")
     (auto simp: word_less_nat_alt)

declare spec_walk.simps [simp del]

text \<open>
  \<open>planned snapshots saveInterval requestStart w\<close>: every partial of the work unit
  \<open>w\<close> starts before the request start and ends at
  \<open>min(ptr - ptr mod saveInterval + saveInterval, requestStart)\<close> for its start
  \<open>ptr\<close>; the missing ones have no partial file on storage and the present ones
  have one.
\<close>

definition planned :: "Snapshots \<Rightarrow> uint64 \<Rightarrow> uint64 \<Rightarrow> WorkUnit \<Rightarrow> bool" where
  "planned snapshots saveInterval requestStart w =
    ((\<forall>r \<in> set (partialsMissing w).
        StartBlock r < requestStart
        \<and> ExclusiveEndBlock r
            = minOf (StartBlock r - StartBlock r mod saveInterval + saveInterval) requestStart
        \<and> \<not> ContainsPartial snapshots r)
     \<and> (\<forall>r \<in> set (partialsPresent w).
        StartBlock r < requestStart
        \<and> ExclusiveEndBlock r
            = minOf (StartBlock r - StartBlock r mod saveInterval + saveInterval) requestStart
        \<and> ContainsPartial snapshots r))"

subsection \<open>Progress messages\<close>

text \<open>
  The protobuf messages \<open>BlockRange\<close> and \<open>ModuleProgress\<close>; the one-of \<open>Type\<close> of a
  progress message always holds processed ranges here.
\<close>

record BlockRange =
  BlockRange_StartBlock :: uint64
  BlockRange_EndBlock :: uint64

record ModuleProgress =
  Name :: string
  ProcessedRanges :: "BlockRange list"

text \<open>
  \<open>WorkPlan\<close> is a Go map from module names to work units.  \<open>range\<close> over a map visits
  each key once, in an order the runtime chooses: the plan is given as the list of its
  entries in the order of the visit.
\<close>

type_synonym WorkPlan = "(string \<times> WorkUnit) list"

definition initialProcessedPartials :: "WorkUnit \<Rightarrow> Range list" where
  "initialProcessedPartials w = Merged (partialsPresent w)"

fun ProgressMessages :: "WorkPlan \<Rightarrow> ModuleProgress list" where
  "ProgressMessages [] = []"
| "ProgressMessages ((storeName, unit) # p) =
    (case initialStoreFile unit of
       None \<Rightarrow> ProgressMessages p
     | Some f \<Rightarrow>
         (let more = [] @ [\<lparr>BlockRange_StartBlock = StartBlock f,
                            BlockRange_EndBlock = ExclusiveEndBlock f\<rparr>];
              more1 = more @ map (\<lambda>rng. \<lparr>BlockRange_StartBlock = StartBlock rng,
                                         BlockRange_EndBlock = ExclusiveEndBlock rng\<rparr>)
                                (initialProcessedPartials unit)
          in \<lparr>Name = storeName, ProcessedRanges = more1\<rparr> # ProgressMessages p))"

section \<open>WASM instances (wasm/instance.go)\<close>

text \<open>
  A Go byte slice can be \<open>nil\<close>, which the executor tells apart from a slice that is
  merely empty (\<open>mapperOutput != nil\<close>): \<open>None\<close> is \<open>nil\<close>.  \<open>len\<close> of a \<open>nil\<close> slice
  is 0.
\<close>

type_synonym bytes = "8 word list option"

definition len :: "bytes \<Rightarrow> nat" where
  "len b = (case b of None \<Rightarrow> 0 | Some bs \<Rightarrow> length bs)"

text \<open>
  What \<open>entrypoint.Call\<close> can give back besides a normal return: a \<open>*sys.ExitError\<close>
  with its exit code, or any other error (a trap of the guest, a cancelled context).
\<close>

datatype CallError = ExitError "32 word" | OtherError string

datatype PanicError = PanicError string

text \<open>
  The errors \<open>Execute\<close> returns: the recorded panic, or the call's error wrapped with
  the name of the entry point.
\<close>

datatype ExecuteError = Panicked PanicError | ExecutingEntrypoint string CallError

record Instance =
  args :: "uint64 list"
  returnValue :: bytes
  panicError :: "PanicError option"
  functionName :: string
  Logs :: "string list"
  LogsByteCount :: uint64

text \<open>
  The guest runs inside \<open>entrypoint.Call\<close> and reaches the instance through the host
  functions (\<open>output\<close>, \<open>register_panic\<close>, \<open>log\<close>): a call takes the arguments and the
  instance and gives the call's error, if any, and the instance as the guest left it.
\<close>

type_synonym entrypoint = "uint64 list \<Rightarrow> Instance \<Rightarrow> CallError option \<times> Instance"

definition Execute :: "entrypoint \<Rightarrow> Instance \<Rightarrow> ExecuteError option \<times> Instance" where
  "Execute call i =
    (case call (args i) i of
       (None, i1) \<Rightarrow> (None, i1)
     | (Some err, i1) \<Rightarrow>
         if (case err of ExitError code \<Rightarrow> code = 0 | OtherError _ \<Rightarrow> False)
         then (None, i1)
         else (case panicError i1 of
                 Some p \<Rightarrow> (Some (Panicked p), i1)
               | None \<Rightarrow> (Some (ExecutingEntrypoint (functionName i1) err), i1)))"

text \<open>
  \<open>Err\<close> returns the field \<open>panicError\<close>, a \<open>*PanicError\<close>, as a value of the
  interface type \<open>error\<close>.  The interface value holds the pointer, nil or not, and so
  is never the nil interface: a caller's test \<open>Err() != nil\<close> is true even when the
  panic slot is unset.
\<close>

datatype error_interface = NilError | PanicErrorPointer "PanicError option"

definition Err :: "Instance \<Rightarrow> error_interface" where
  "Err i = PanicErrorPointer (panicError i)"

definition Output :: "Instance \<Rightarrow> bytes" where
  "Output i = returnValue i"

definition maxLogByteCount :: uint64 where
  "maxLogByteCount = 128 * 1024"

definition ReachedLogsMaxByteCount :: "Instance \<Rightarrow> bool" where
  "ReachedLogsMaxByteCount i = (LogsByteCount i \<ge> maxLogByteCount)"

section \<open>Module executors (pipeline/executor.go)\<close>

text \<open>
  The three kinds of input the executor switches on.  The switch's \<open>default\<close> arm
  panics on any other number; the enumeration has no other value.
\<close>

datatype InputType = InputSource | InputStore | OutputStore

record Input =
  Type :: InputType
  InputName :: string
  StreamData :: bytes

record Clock =
  Number :: uint64
  Id :: string

text \<open>
  Modelled from the spec: the output cache (package \<open>outputs\<close>) is used by the
  executors but is not part of the sources at hand.  The spec: a chunk covers a block
  range and maps a block number to cursor and payload; \<open>get(clock)\<close> gives
  \<open>(bytes, hit)\<close> for a block; \<open>set(clock, cursor, bytes)\<close> records an entry and
  fails when the block is outside the range of the current chunk.
\<close>

record CacheItem =
  Cursor :: string
  Payload :: bytes

record OutputCache =
  CurrentBlockRange :: Range
  kv :: "uint64 \<rightharpoonup> CacheItem"

definition cache_Get :: "OutputCache \<Rightarrow> Clock \<Rightarrow> bytes \<times> bool" where
  "cache_Get c clock =
    (case kv c (Number clock) of None \<Rightarrow> (None, False) | Some item \<Rightarrow> (Payload item, True))"

definition cache_Set :: "OutputCache \<Rightarrow> Clock \<Rightarrow> string \<Rightarrow> bytes \<Rightarrow> string + OutputCache" where
  "cache_Set c clock cursor data =
    (if Contains (CurrentBlockRange c) (Number clock)
     then Inr (c\<lparr>kv := (kv c)(Number clock \<mapsto> \<lparr>Cursor = cursor, Payload = data\<rparr>)\<rparr>)
     else Inl ''block outside of the range of the current chunk'')"

text \<open>
  Modelled from the spec: \<open>wasm.Module\<close> is used by the executors but is not part of
  the sources at hand.  The spec: per block and module a fresh instance is created
  from the shared compiled module and holds the input bindings; after execution the
  host clears its heap.  What the compiled guest does is a parameter: creating an
  instance can fail, the guest's entry point is an \<open>entrypoint\<close>, clearing the heap
  can fail.
\<close>

record Module =
  NewInstance :: "Clock \<Rightarrow> Input list \<Rightarrow> string + Instance"
  guest :: entrypoint
  HeapClear :: "Instance \<Rightarrow> string option"

text \<open>
  What a run asks of the world outside the executor, in order: the calls of
  \<open>NewInstance\<close>, of \<open>Execute\<close>, of \<open>Heap.Clear\<close> and of the cache's \<open>Set\<close> (with
  the block number).
\<close>

datatype effect =
    NewInstanceCall
  | ExecuteCall
  | HeapClearCall
  | CacheSetCall uint64

record BaseExecutor =
  moduleName :: string
  wasmModule :: Module
  wasmInputs :: "Input list"
  cache :: OutputCache
  isOutput :: bool
  entrypoint_name :: string

record MapperModuleExecutor = BaseExecutor +
  outputType :: string
  mapperOutput :: bytes

text \<open>The errors the executor builds with \<open>fmt.Errorf\<close>, with what they wrap.\<close>

datatype ExecutorError =
    NewWasmInstance string
  | WasmExecutionFailed uint64 string ExecuteError
  | WasmHeapClearFailed uint64 string string
  | SettingMapperOutputToCache uint64 string

text \<open>
  \<open>vals\<close> is a Go \<open>map[string][]byte\<close>: reading a missing key gives \<open>nil\<close>, and a key
  can be stored with the value \<open>nil\<close>.
\<close>

type_synonym vals = "string \<rightharpoonup> bytes"

definition vals_at :: "vals \<Rightarrow> string \<Rightarrow> bytes" where
  "vals_at vs k = (case vs k of None \<Rightarrow> None | Some v \<Rightarrow> v)"

text \<open>
  The \<open>for _, input := range e.wasmInputs\<close> loop of \<open>wasmCall\<close>: it binds the stream
  data of the source inputs (the inputs are pointers, so the executor's list changes)
  and computes \<open>hasInput\<close>.
\<close>

fun bindInputs :: "vals \<Rightarrow> Input list \<Rightarrow> bool \<Rightarrow> Input list \<times> bool" where
  "bindInputs vs [] hasInput = ([], hasInput)"
| "bindInputs vs (input # rest) hasInput =
    (case Type input of
       InputSource \<Rightarrow>
         (let val = vals_at vs (InputName input) in
          if len val \<noteq> 0
          then (case bindInputs vs rest True of
                  (rest1, h) \<Rightarrow> (input\<lparr>StreamData := val\<rparr> # rest1, h))
          else (case bindInputs vs rest hasInput of
                  (rest1, h) \<Rightarrow> (input\<lparr>StreamData := None\<rparr> # rest1, h)))
     | InputStore \<Rightarrow>
         (case bindInputs vs rest True of (rest1, h) \<Rightarrow> (input # rest1, h))
     | OutputStore \<Rightarrow>
         (case bindInputs vs rest hasInput of (rest1, h) \<Rightarrow> (input # rest1, h)))"

text \<open>
  \<open>wasmCall\<close> gives the executor with its inputs bound, the effects in order, and
  the error or the instance (\<open>None\<close> is the \<open>nil\<close> instance of a skipped execution).
\<close>

definition wasmCall ::
  "'a BaseExecutor_scheme \<Rightarrow> vals \<Rightarrow> Clock \<Rightarrow>
   'a BaseExecutor_scheme \<times> effect list \<times> (ExecutorError + Instance option)" where
  "wasmCall e vs clock =
    (case bindInputs vs (wasmInputs e) False of
       (inputs1, hasInput) \<Rightarrow>
         let e1 = e\<lparr>wasmInputs := inputs1\<rparr> in
         if hasInput then
           (case NewInstance (wasmModule e1) clock inputs1 of
              Inl err \<Rightarrow> (e1, [NewInstanceCall], Inl (NewWasmInstance err))
            | Inr instance \<Rightarrow>
                (case Execute (guest (wasmModule e1)) instance of
                   (Some err, instance1) \<Rightarrow>
                     (e1, [NewInstanceCall, ExecuteCall],
                      Inl (WasmExecutionFailed (Number clock) (moduleName e1) err))
                 | (None, instance1) \<Rightarrow>
                     (case HeapClear (wasmModule e1) instance1 of
                        Some err \<Rightarrow>
                          (e1, [NewInstanceCall, ExecuteCall, HeapClearCall],
                           Inl (WasmHeapClearFailed (Number clock) (moduleName e1) err))
                      | None \<Rightarrow>
                          (e1, [NewInstanceCall, ExecuteCall, HeapClearCall],
                           Inr (Some instance1)))))
         else (e1, [], Inr None))"

definition wasmMapCall ::
  "MapperModuleExecutor \<Rightarrow> vals \<Rightarrow> Clock \<Rightarrow>
   MapperModuleExecutor \<times> vals \<times> effect list \<times> ExecutorError option" where
  "wasmMapCall e vs clock =
    (case wasmCall e vs clock of
       (e1, effs, Inl err) \<Rightarrow> (e1, vs, effs, Some err)
     | (e1, effs, Inr vm) \<Rightarrow>
         (let name = moduleName e1 in
          case vm of
            Some inst \<Rightarrow>
              (let out = Output inst in
               (e1\<lparr>mapperOutput := out\<rparr>, vs(name \<mapsto> out), effs, None))
          | None \<Rightarrow> (e1\<lparr>mapperOutput := None\<rparr>, vs(name \<mapsto> None), effs, None)))"

text \<open>
  \<open>MapperModuleExecutor.run\<close>; the tracing span it opens and closes is left out.
\<close>

definition run ::
  "MapperModuleExecutor \<Rightarrow> vals \<Rightarrow> Clock \<Rightarrow> string \<Rightarrow>
   MapperModuleExecutor \<times> vals \<times> effect list \<times> ExecutorError option" where
  "run e vs clock cursor =
    (case cache_Get (cache e) clock of
       (output, True) \<Rightarrow> (e\<lparr>mapperOutput := output\<rparr>, vs, [], None)
     | (output, False) \<Rightarrow>
         (case wasmMapCall e vs clock of
            (e1, vs1, effs, Some err) \<Rightarrow> (e1, vs1, effs, Some err)
          | (e1, vs1, effs, None) \<Rightarrow>
              (case cache_Set (cache e1) clock cursor (mapperOutput e1) of
                 Inl err \<Rightarrow>
                   (e1, vs1, effs @ [CacheSetCall (Number clock)],
                    Some (SettingMapperOutputToCache (Number clock) err))
               | Inr c1 \<Rightarrow>
                   (e1\<lparr>cache := c1\<rparr>, vs1, effs @ [CacheSetCall (Number clock)], None))))"

text \<open>
  Modelled from the spec: the pipeline's block loop is not part of the sources at
  hand.  The spec: per block, the per-block values mapping is cleared and the executor
  runs; the pipeline halts at the first error.  Each block comes with its cursor.
\<close>

fun run_blocks ::
  "MapperModuleExecutor \<Rightarrow> (Clock \<times> string) list \<Rightarrow>
   MapperModuleExecutor \<times> bytes list \<times> effect list \<times> ExecutorError option" where
  "run_blocks e [] = (e, [], [], None)"
| "run_blocks e ((clock, cursor) # rest) =
    (case run e Map.empty clock cursor of
       (e1, vs1, effs, Some err) \<Rightarrow> (e1, [], effs, Some err)
     | (e1, vs1, effs, None) \<Rightarrow>
         (case run_blocks e1 rest of
            (e2, outs, effs2, res) \<Rightarrow> (e2, mapperOutput e1 # outs, effs @ effs2, res)))"

section \<open>Stores: the max policy (package state)\<close>

text \<open>
  Modelled from the spec: the store and its \<open>SetMax...\<close> and \<open>GetAt\<close> methods are
  exercised by state/store\_max\_test.go but are not part of the sources at hand.  The
  spec: a store maps string keys to byte strings (\<open>kv\<close>) and records deltas; every
  successful mutation appends one delta, with the prior value (empty on create) and
  the new one; \<open>getAt(ord, key)\<close> returns \<open>(value, found)\<close> from the current \<open>kv\<close>;
  \<open>max(ord, key, candidate)\<close> reads, replaces iff the candidate strictly improves,
  and writes the candidate on a missing key; numbers are stored as their decimal
  text.  The tests call the \<open>SetMax\<close> methods on stores created with
  \<open>UPDATE_POLICY_UNSET\<close> and expect the write, so the methods do not check the policy.
\<close>

datatype UpdatePolicy = UNSET | SET | SET_IF_NOT_EXISTS | ADD | MIN | MAX | APPEND

datatype Operation = CREATE | UPDATE | DELETE






subsection \<open>Decimal text\<close>














section \<open>Example values\<close>

text \<open>
  A mapper executor with one source input, whose cache chunk \<open>[100, 200)\<close> holds the
  outputs of blocks 100 and 101, and a guest that outputs three bytes.
\<close>

definition example_instance :: Instance where
  "example_instance =
    \<lparr>args = [], returnValue = None, panicError = None, functionName = ''map_transfers'',
      Logs = [], LogsByteCount = 0\<rparr>"

definition example_module :: Module where
  "example_module =
    \<lparr>NewInstance = (\<lambda>clock inputs. Inr example_instance),
      guest = (\<lambda>a i. (None, i\<lparr>returnValue := Some [1, 2, 3]\<rparr>)),
      HeapClear = (\<lambda>i. None)\<rparr>"

definition example_cache :: OutputCache where
  "example_cache =
    \<lparr>CurrentBlockRange = \<lparr>StartBlock = 100, ExclusiveEndBlock = 200\<rparr>,
      kv = [100 \<mapsto> \<lparr>Cursor = ''c100'', Payload = Some [7]\<rparr>,
            101 \<mapsto> \<lparr>Cursor = ''c101'', Payload = None\<rparr>]\<rparr>"

definition example_mapper :: MapperModuleExecutor where
  "example_mapper =
    \<lparr>moduleName = ''map_transfers'', wasmModule = example_module,
      wasmInputs = [\<lparr>Type = InputSource, InputName = ''sf.ethereum.type.v1.Block'',
                     StreamData = None\<rparr>],
      cache = example_cache, isOutput = True, entrypoint_name = ''map_transfers'',
      outputType = ''proto:eth.Transfers'', mapperOutput = Some [9]\<rparr>"


section \<open>Properties of \<open>Split\<close>\<close>

lemma Split_loop_total:
  assumes "k \<noteq> 0" and "unat (ExclusiveEndBlock r) + unat k < 2 ^ 64"
    and "cs \<le> ce" and "ce \<le> ExclusiveEndBlock r"
    and "ce - cs = k \<or> (ce = ExclusiveEndBlock r \<and> ce - cs \<le> k)"
  shows "\<exists>ys. Split_loop r k cs ce res = Some (res @ ys) \<and> ys \<noteq> []
            \<and> contiguous cs (ExclusiveEndBlock r) ys \<and> chunked k ys"
  using assms(3-5)
proof (induction "unat (ExclusiveEndBlock r) - unat ce" arbitrary: cs ce res rule: less_induct)
  case less
  let ?e = "ExclusiveEndBlock r"
  let ?x = "\<lparr>StartBlock = cs, ExclusiveEndBlock = ce\<rparr>"
  show ?case
  proof (cases "?e \<le> ce")
    case True
    with less.prems have ce: "ce = ?e" by simp
    have "Split_loop r k cs ce res = Some (res @ [?x])"
      using True by (subst Split_loop.simps) (simp add: Let_def)
    moreover have "contiguous cs ?e [?x]" using less.prems ce by simp
    moreover have "chunked k [?x]" using less.prems ce by (auto simp: Size_def)
    ultimately show ?thesis by blast
  next
    case False
    then have lt: "ce < ?e" by simp
    with less.prems have sz: "ce - cs = k" by auto
    define ce1 where "ce1 = ce + k"
    define ce2 where "ce2 = (if ?e < ce1 then ?e else ce1)"
    have u1: "unat ce1 = unat ce + unat k"
      unfolding ce1_def using lt assms(2) by (simp add: unat_add_lem[THEN iffD1] word_less_nat_alt)
    have kpos: "0 < unat k" using assms(1) by (simp add: unat_gt_0)
    have ce_lt: "ce < ce2" using u1 kpos lt by (auto simp: ce2_def word_less_nat_alt)
    have ce2_le: "ce2 \<le> ?e" by (auto simp: ce2_def)
    have inv: "ce2 - ce = k \<or> (ce2 = ?e \<and> ce2 - ce \<le> k)"
    proof (cases "?e < ce1")
      case True
      then have "ce2 = ?e" by (simp add: ce2_def)
      moreover have "?e - ce \<le> k"
        using True lt u1 by (simp add: word_le_nat_alt word_less_nat_alt unat_sub)
      ultimately show ?thesis by simp
    next
      case False
      then show ?thesis by (simp add: ce2_def ce1_def)
    qed
    have m: "unat ?e - unat ce2 < unat ?e - unat ce"
      using ce_lt lt by (simp add: word_less_nat_alt) 
    have ce_le: "ce \<le> ce2" using ce_lt by simp
    from less.hyps[OF m ce_le ce2_le inv, of "res @ [?x]"]
    obtain ys where ys: "Split_loop r k ce ce2 (res @ [?x]) = Some ((res @ [?x]) @ ys)" "ys \<noteq> []"
      "contiguous ce ?e ys" "chunked k ys" by auto
    have "Split_loop r k cs ce res = Split_loop r k ce ce2 (res @ [?x])"
      using False by (subst Split_loop.simps) (simp add: Let_def ce2_def ce1_def)
    with ys have "Split_loop r k cs ce res = Some (res @ (?x # ys))" by simp
    moreover have "contiguous cs ?e (?x # ys)" using ys less.prems by simp
    moreover have "chunked k (?x # ys)" using ys sz by (cases ys) (auto simp: Size_def)
    ultimately show ?thesis by blast
  qed
qed

lemma contiguous_le: "contiguous a b xs \<Longrightarrow> a \<le> b"
proof (induction xs arbitrary: a)
  case Nil
  then show ?case by simp
next
  case (Cons x xs)
  then have "a \<le> ExclusiveEndBlock x" and "ExclusiveEndBlock x \<le> b" by auto
  then show ?case by (rule order_trans)
qed

lemma contiguous_blocks:
  "contiguous a b xs \<Longrightarrow> (\<Union>x \<in> set xs. blocks x) = {n. a \<le> n \<and> n < b}"
proof (induction xs arbitrary: a)
  case Nil
  then show ?case by auto
next
  case (Cons x xs)
  then have c: "contiguous (ExclusiveEndBlock x) b xs" and s: "StartBlock x = a"
    and le: "a \<le> ExclusiveEndBlock x" by auto
  from contiguous_le[OF c] have le2: "ExclusiveEndBlock x \<le> b" .
  have "blocks x = {n. a \<le> n \<and> n < ExclusiveEndBlock x}"
    by (auto simp: blocks_def Contains_def s)
  with Cons.IH[OF c] le le2 show ?case by auto
qed

lemma contiguous_disjoint:
  "contiguous a b xs \<Longrightarrow> i < j \<Longrightarrow> j < length xs \<Longrightarrow> blocks (xs ! i) \<inter> blocks (xs ! j) = {}"
proof (induction xs arbitrary: a i j)
  case Nil
  then show ?case by simp
next
  case (Cons x xs)
  then have c: "contiguous (ExclusiveEndBlock x) b xs" by auto
  show ?case
  proof (cases i)
    case 0
    from Cons.prems obtain j' where j: "j = Suc j'" "j' < length xs" by (cases j) auto
    then have "xs ! j' \<in> set xs" by simp
    then have "blocks (xs ! j') \<subseteq> (\<Union>y \<in> set xs. blocks y)" by blast
    also have "\<dots> = {n. ExclusiveEndBlock x \<le> n \<and> n < b}" by (rule contiguous_blocks[OF c])
    finally have "blocks (xs ! j') \<subseteq> {n. ExclusiveEndBlock x \<le> n \<and> n < b}" .
    moreover have "blocks x \<subseteq> {n. n < ExclusiveEndBlock x}" by (auto simp: blocks_def Contains_def)
    ultimately show ?thesis using 0 j by fastforce
  next
    case (Suc i')
    with Cons.prems obtain j' where j: "j = Suc j'" "j' < length xs" "i' < j'" by (cases j) auto
    from Cons.IH[OF c j(3) j(2)] Suc j show ?thesis by simp
  qed
qed

lemma contiguous_hd: "contiguous a b xs \<Longrightarrow> xs \<noteq> [] \<Longrightarrow> StartBlock (hd xs) = a"
  by (cases xs) auto

lemma contiguous_last: "contiguous a b xs \<Longrightarrow> xs \<noteq> [] \<Longrightarrow> ExclusiveEndBlock (last xs) = b"
  by (induction xs arbitrary: a) (auto split: if_splits)

lemma contiguous_next:
  "contiguous a b xs \<Longrightarrow> Suc i < length xs \<Longrightarrow> StartBlock (xs ! Suc i) = ExclusiveEndBlock (xs ! i)"
proof (induction xs arbitrary: a i)
  case Nil
  then show ?case by simp
next
  case (Cons x xs)
  then have c: "contiguous (ExclusiveEndBlock x) b xs" by auto
  show ?case
  proof (cases i)
    case 0
    with Cons.prems c show ?thesis by (cases xs) auto
  next
    case (Suc i')
    with Cons.prems Cons.IH[OF c, of i'] show ?thesis by simp
  qed
qed

lemma chunked_nth: "chunked k xs \<Longrightarrow> Suc i < length xs \<Longrightarrow> Size (xs ! i) = k"
proof (induction k xs arbitrary: i rule: chunked.induct)
  case (3 k x y ys)
  then show ?case by (cases i) auto
qed auto

lemma chunked_last: "chunked k xs \<Longrightarrow> xs \<noteq> [] \<Longrightarrow> Size (last xs) \<le> k"
  by (induction k xs rule: chunked.induct) auto

lemma Split_wellformed:
  assumes "StartBlock r \<le> ExclusiveEndBlock r" and "k \<noteq> 0"
    and "unat (ExclusiveEndBlock r) + unat k < 2 ^ 64"
  shows "\<exists>rs. Split r k = Some rs \<and> rs \<noteq> []
            \<and> contiguous (StartBlock r) (ExclusiveEndBlock r) rs
            \<and> (if Size r \<le> k then rs = [r] else chunked k rs)"
proof (cases "ExclusiveEndBlock r - StartBlock r \<le> k")
  case True
  then show ?thesis using assms(1) by (simp add: Split_def Size_def)
next
  case False
  let ?s = "StartBlock r" and ?e = "ExclusiveEndBlock r"
  from False have gt: "unat k < unat ?e - unat ?s"
    using assms(1) by (simp add: word_le_nat_alt unat_sub not_le)
  then have u: "unat (?s + k) = unat ?s + unat k"
    using assms(3) by (simp add: unat_add_lem[THEN iffD1])
  have a: "?s \<le> ?s + k" using u by (simp add: word_le_nat_alt)
  have b: "?s + k \<le> ?e" using u gt by (simp add: word_le_nat_alt)
  have c: "?s + k - ?s = k" by simp
  from Split_loop_total[OF assms(2,3) a b, of "[]"] c
  obtain ys where "Split_loop r k ?s (?s + k) [] = Some ys" "ys \<noteq> []"
    "contiguous ?s ?e ys" "chunked k ys" by auto
  with False show ?thesis by (simp add: Split_def Size_def)
qed


lemma Split_loop_zero_diverges:
  "Split_loop r k cs ce res = Some y \<Longrightarrow> \<not> (k = 0 \<and> ce < ExclusiveEndBlock r)"
  apply (erule Split_loop.raw_induct[where P="\<lambda>r k cs ce res y. \<not> (k = 0 \<and> ce < ExclusiveEndBlock r)", rotated])
  apply (auto simp: Let_def split: if_splits)
  done

lemma Split_loop_wrap_diverges:
  "Split_loop r k cs ce res = Some y \<Longrightarrow>
   \<not> (k = 9223372036854775808 \<and> 9223372036854775808 < ExclusiveEndBlock r
      \<and> (ce = 0 \<or> ce = 9223372036854775808))"
proof (erule Split_loop.raw_induct[where P="\<lambda>r k cs ce res y.
         \<not> (k = 9223372036854775808 \<and> 9223372036854775808 < ExclusiveEndBlock r
            \<and> (ce = 0 \<or> ce = 9223372036854775808))", rotated])
  fix f :: "Range \<Rightarrow> uint64 \<Rightarrow> uint64 \<Rightarrow> uint64 \<Rightarrow> Range list \<Rightarrow> Range list option"
    and r :: Range and k cs ce :: uint64 and res y :: "Range list"
  assume ih: "\<And>r k cs ce res y. f r k cs ce res = Some y \<Longrightarrow>
     \<not> (k = 9223372036854775808 \<and> 9223372036854775808 < ExclusiveEndBlock r
        \<and> (ce = 0 \<or> ce = (9223372036854775808 :: uint64)))"
  assume prem: "(let res1 = res @ [\<lparr>StartBlock = cs, ExclusiveEndBlock = ce\<rparr>]
          in if ExclusiveEndBlock r \<le> ce then Some res1
             else let currentStart1 = ce; currentEnd1 = currentStart1 + k;
                      currentEnd2 = if ExclusiveEndBlock r < currentEnd1
                                    then ExclusiveEndBlock r else currentEnd1
                  in f r k currentStart1 currentEnd2 res1) = Some y"
  have w: "(18446744073709551616 :: uint64) = 0" by simp
  show "\<not> (k = 9223372036854775808 \<and> 9223372036854775808 < ExclusiveEndBlock r
           \<and> (ce = 0 \<or> ce = 9223372036854775808))"
  proof
    assume a: "k = 9223372036854775808 \<and> 9223372036854775808 < ExclusiveEndBlock r
                \<and> (ce = 0 \<or> ce = 9223372036854775808)"
    then have e: "9223372036854775808 < ExclusiveEndBlock r" by simp
    then have n1: "\<not> ExclusiveEndBlock r \<le> 9223372036854775808"
      and n2: "\<not> ExclusiveEndBlock r < 9223372036854775808" by auto
    from e have "0 < ExclusiveEndBlock r" by (rule le_less_trans[rotated]) simp
    then have n3: "\<not> ExclusiveEndBlock r \<le> 0" and n4: "\<not> ExclusiveEndBlock r < 0" by auto
    from a consider "ce = 0" | "ce = 9223372036854775808" by blast
    then show False
    proof cases
      case 1
      with a prem n2 n3 have "f r k 0 9223372036854775808
          (res @ [\<lparr>StartBlock = cs, ExclusiveEndBlock = 0\<rparr>]) = Some y"
        by (simp add: Let_def)
      from ih[OF this] a show False by blast
    next
      case 2
      with a prem n1 n4 have "f r k 9223372036854775808 0
          (res @ [\<lparr>StartBlock = cs, ExclusiveEndBlock = 9223372036854775808\<rparr>]) = Some y"
        by (simp add: Let_def w)
      from ih[OF this] a show False by blast
    qed
  qed
qed

subsection \<open>Claim C4: \<open>Split\<close> partitions the range\<close>

text \<open>
  C4, counterexample.  The claim is stated for every chunk size.  With chunk size 0
  and the non-empty range \<open>[0, 1)\<close> the loop appends \<open>[0, 0)\<close> for ever, since
  \<open>currentEnd\<close> stays at 0 and never reaches 1: \<open>Split\<close> returns no list.  Nor does
  it for the range \<open>[0, 2^64 - 2)\<close> and chunk size \<open>2^63\<close>, where
  \<open>currentStart + chunkSize\<close> wraps around to 0.
\<close>

theorem Split_chunk_zero_or_wrapping_never_returns:
  "Split \<lparr>StartBlock = 0, ExclusiveEndBlock = 1\<rparr> 0 = None
   \<and> Split \<lparr>StartBlock = 0, ExclusiveEndBlock = 18446744073709551614\<rparr> 9223372036854775808
       = None"
proof
  show "Split \<lparr>StartBlock = 0, ExclusiveEndBlock = 1\<rparr> 0 = None"
    using Split_loop_zero_diverges[of "\<lparr>StartBlock = 0, ExclusiveEndBlock = 1\<rparr>" 0 0 0 "[]"]
    by (cases "Split_loop \<lparr>StartBlock = 0, ExclusiveEndBlock = 1\<rparr> 0 0 0 []")
       (auto simp: Split_def)
next
  show "Split \<lparr>StartBlock = 0, ExclusiveEndBlock = 18446744073709551614\<rparr> 9223372036854775808
       = None"
    using Split_loop_wrap_diverges[of "\<lparr>StartBlock = 0, ExclusiveEndBlock = 18446744073709551614\<rparr>"
        9223372036854775808 0 9223372036854775808 "[]"]
    by (cases "Split_loop \<lparr>StartBlock = 0, ExclusiveEndBlock = 18446744073709551614\<rparr>
          9223372036854775808 0 9223372036854775808 []")
       (auto simp: Split_def)
qed

text \<open>
  C4, as amended.  For every range with \<open>StartBlock \<le> ExclusiveEndBlock\<close> and every
  chunk size of at least 1 such that \<open>ExclusiveEndBlock + chunkSize\<close> does not exceed
  the 64-bit range, \<open>Split\<close> returns a non-empty list of sub-ranges whose block sets
  are pairwise disjoint and whose union is the block set of the range: the first
  starts at \<open>StartBlock\<close>, each following one starts where its predecessor ends, and
  the last ends at \<open>ExclusiveEndBlock\<close>.
\<close>

theorem Split_partitions_range:
  assumes "StartBlock r \<le> ExclusiveEndBlock r" and "1 \<le> chunkSize"
    and "unat (ExclusiveEndBlock r) + unat chunkSize < 2 ^ 64"
  shows "\<exists>rs. Split r chunkSize = Some rs \<and> rs \<noteq> []
          \<and> (\<Union>x \<in> set rs. blocks x) = blocks r
          \<and> (\<forall>i j. i < j \<and> j < length rs \<longrightarrow> blocks (rs ! i) \<inter> blocks (rs ! j) = {})
          \<and> StartBlock (hd rs) = StartBlock r
          \<and> (\<forall>i. Suc i < length rs \<longrightarrow> StartBlock (rs ! Suc i) = ExclusiveEndBlock (rs ! i))
          \<and> ExclusiveEndBlock (last rs) = ExclusiveEndBlock r"
proof -
  from assms(2) have k: "chunkSize \<noteq> 0" by auto
  from Split_wellformed[OF assms(1) k assms(3)]
  obtain rs where rs: "Split r chunkSize = Some rs" "rs \<noteq> []"
    "contiguous (StartBlock r) (ExclusiveEndBlock r) rs" by blast
  have "(\<Union>x \<in> set rs. blocks x) = blocks r"
    using contiguous_blocks[OF rs(3)] by (auto simp: blocks_def Contains_def)
  moreover have "\<forall>i j. i < j \<and> j < length rs \<longrightarrow> blocks (rs ! i) \<inter> blocks (rs ! j) = {}"
    using contiguous_disjoint[OF rs(3)] by blast
  moreover have "\<forall>i. Suc i < length rs \<longrightarrow> StartBlock (rs ! Suc i) = ExclusiveEndBlock (rs ! i)"
    using contiguous_next[OF rs(3)] by blast
  ultimately show ?thesis
    using rs contiguous_hd[OF rs(3,2)] contiguous_last[OF rs(3,2)] by blast
qed

text \<open>C4, witness: the range \<open>[0, 3500)\<close> split in chunks of 1000.\<close>

theorem Split_partitions_range_witness:
  "StartBlock \<lparr>StartBlock = 0, ExclusiveEndBlock = 3500\<rparr>
     \<le> ExclusiveEndBlock \<lparr>StartBlock = 0, ExclusiveEndBlock = 3500\<rparr>
   \<and> (1 :: uint64) \<le> 1000
   \<and> unat (3500 :: uint64) + unat (1000 :: uint64) < 2 ^ 64
   \<and> (\<exists>rs. Split \<lparr>StartBlock = 0, ExclusiveEndBlock = 3500\<rparr> 1000 = Some rs
         \<and> (\<Union>x \<in> set rs. blocks x) = blocks \<lparr>StartBlock = 0, ExclusiveEndBlock = 3500\<rparr>
         \<and> StartBlock (hd rs) = 0 \<and> ExclusiveEndBlock (last rs) = 3500)"
proof -
  have h1: "StartBlock \<lparr>StartBlock = 0, ExclusiveEndBlock = 3500\<rparr>
     \<le> ExclusiveEndBlock \<lparr>StartBlock = 0, ExclusiveEndBlock = 3500\<rparr>" by simp
  have h2: "(1 :: uint64) \<le> 1000" by simp
  have h3: "unat (ExclusiveEndBlock \<lparr>StartBlock = 0, ExclusiveEndBlock = 3500\<rparr>)
     + unat (1000 :: uint64) < 2 ^ 64" by simp
  from Split_partitions_range[OF h1 h2 h3] h1 h2 h3 show ?thesis by auto
qed

subsection \<open>Claim C9: \<open>Split\<close> terminates, in chunks of the given size\<close>

text \<open>
  C9, counterexample.  The claim is stated for every range and every chunk size of at
  least 1.  For the range \<open>[0, 2^64 - 1)\<close> and chunk size \<open>2^63\<close> the sum
  \<open>currentStart + chunkSize\<close> wraps around to 0, which is neither past the end nor
  clamped, and \<open>currentEnd\<close> alternates between \<open>2^63\<close> and 0 for ever: \<open>Split\<close>
  returns no list.
\<close>

theorem Split_wrapping_never_returns:
  "Split \<lparr>StartBlock = 0, ExclusiveEndBlock = 18446744073709551615\<rparr> 9223372036854775808 = None"
  using Split_loop_wrap_diverges[of "\<lparr>StartBlock = 0, ExclusiveEndBlock = 18446744073709551615\<rparr>"
      9223372036854775808 0 9223372036854775808 "[]"]
  by (cases "Split_loop \<lparr>StartBlock = 0, ExclusiveEndBlock = 18446744073709551615\<rparr>
        9223372036854775808 0 9223372036854775808 []")
     (auto simp: Split_def)

text \<open>
  C9, as amended.  For every range and every chunk size of at least 1 such that
  adding the chunk size to the larger of the range's two bounds does not exceed the
  64-bit range, \<open>Split\<close> terminates; when \<open>Size\<close> is at most the chunk size the
  result is the range itself, and otherwise every sub-range but the last has size
  exactly the chunk size and the last has size at most the chunk size.
\<close>

theorem Split_terminates_in_chunks:
  assumes "1 \<le> chunkSize"
    and "unat (max (StartBlock r) (ExclusiveEndBlock r)) + unat chunkSize < 2 ^ 64"
  shows "\<exists>rs. Split r chunkSize = Some rs \<and> rs \<noteq> []
          \<and> (Size r \<le> chunkSize \<longrightarrow> rs = [r])
          \<and> (\<not> Size r \<le> chunkSize \<longrightarrow>
               (\<forall>i. Suc i < length rs \<longrightarrow> Size (rs ! i) = chunkSize)
               \<and> Size (last rs) \<le> chunkSize)"
proof (cases "StartBlock r \<le> ExclusiveEndBlock r")
  case True
  from assms(1) have k: "chunkSize \<noteq> 0" by auto
  from True assms(2) have "unat (ExclusiveEndBlock r) + unat chunkSize < 2 ^ 64"
    by (simp add: max_def)
  from Split_wellformed[OF True k this]
  obtain rs where rs: "Split r chunkSize = Some rs" "rs \<noteq> []"
    "if Size r \<le> chunkSize then rs = [r] else chunked chunkSize rs" by blast
  then show ?thesis using chunked_nth[of chunkSize rs] chunked_last[of chunkSize rs]
    by (auto split: if_splits)
next
  case False
  let ?s = "StartBlock r" and ?e = "ExclusiveEndBlock r"
  from False have lt: "?e < ?s" by simp
  from False have "max ?s ?e = ?s" by (simp add: max_def)
  with assms(2) have "unat ?s + unat chunkSize < 2 ^ 64" by simp
  then have u: "unat (?s + chunkSize) = unat ?s + unat chunkSize"
    by (simp add: unat_add_lem[THEN iffD1])
  have ge: "?e \<le> ?s + chunkSize" using u lt by (simp add: word_le_nat_alt word_less_nat_alt)
  have loop: "Split_loop r chunkSize ?s (?s + chunkSize) []
      = Some [\<lparr>StartBlock = ?s, ExclusiveEndBlock = ?s + chunkSize\<rparr>]"
    using ge by (subst Split_loop.simps) (simp add: Let_def)
  show ?thesis
  proof (cases "Size r \<le> chunkSize")
    case True
    then show ?thesis by (simp add: Split_def Size_def)
  next
    case False
    then show ?thesis using loop by (simp add: Split_def Size_def)
  qed
qed

text \<open>C9, witness: the range \<open>[0, 3500)\<close> split in chunks of 1000.\<close>

theorem Split_terminates_in_chunks_witness:
  "(1 :: uint64) \<le> 1000
   \<and> unat (max (0 :: uint64) 3500) + unat (1000 :: uint64) < 2 ^ 64
   \<and> \<not> Size \<lparr>StartBlock = 0, ExclusiveEndBlock = 3500\<rparr> \<le> 1000
   \<and> (\<exists>rs. Split \<lparr>StartBlock = 0, ExclusiveEndBlock = 3500\<rparr> 1000 = Some rs
         \<and> length rs = 4 \<and> Size (rs ! 0) = 1000 \<and> Size (rs ! 2) = 1000
         \<and> Size (last rs) \<le> 1000)"
proof -
  have h1: "(1 :: uint64) \<le> 1000" by simp
  have h2: "unat (max (StartBlock \<lparr>StartBlock = 0, ExclusiveEndBlock = 3500\<rparr>)
                      (ExclusiveEndBlock \<lparr>StartBlock = 0, ExclusiveEndBlock = 3500\<rparr>))
            + unat (1000 :: uint64) < 2 ^ 64" by simp
  have h3: "\<not> Size \<lparr>StartBlock = 0, ExclusiveEndBlock = 3500\<rparr> \<le> 1000"
    by (simp add: Size_def)
  have ev: "Split \<lparr>StartBlock = 0, ExclusiveEndBlock = 3500\<rparr> 1000 =
    Some [\<lparr>StartBlock = 0, ExclusiveEndBlock = 1000\<rparr>, \<lparr>StartBlock = 1000, ExclusiveEndBlock = 2000\<rparr>,
          \<lparr>StartBlock = 2000, ExclusiveEndBlock = 3000\<rparr>, \<lparr>StartBlock = 3000, ExclusiveEndBlock = 3500\<rparr>]"
    by (simp add: Split_def Split_loop.simps)
  from Split_terminates_in_chunks[OF h1 h2] h1 h3 ev show ?thesis
    by (simp add: Size_def)
qed

section \<open>Properties of work planning\<close>

lemma LastCompleteSnapshotBefore_list_le:
  "LastCompleteSnapshotBefore_list cs b = Some c \<Longrightarrow> ExclusiveEndBlock c \<le> b"
  by (induction cs arbitrary: c) (auto split: option.splits if_splits)

lemma spec_walk_ends:
  "r \<in> set (spec_walk si req ptr) \<Longrightarrow>
   ExclusiveEndBlock r = minOf (StartBlock r - StartBlock r mod si + si) req"
proof (induction si req ptr rule: spec_walk.induct)
  case (1 si req ptr)
  show ?case
  proof (cases "ptr < req \<and> ptr < minOf (spec_alignUp ptr si) req")
    case True
    with "1.prems" have "r = \<lparr>StartBlock = ptr, ExclusiveEndBlock = minOf (spec_alignUp ptr si) req\<rparr>
       \<or> r \<in> set (spec_walk si req (minOf (spec_alignUp ptr si) req))"
      by (subst (asm) spec_walk.simps) simp
    then show ?thesis
    proof
      assume "r = \<lparr>StartBlock = ptr, ExclusiveEndBlock = minOf (spec_alignUp ptr si) req\<rparr>"
      then show ?thesis by (simp add: spec_alignUp_def)
    next
      assume "r \<in> set (spec_walk si req (minOf (spec_alignUp ptr si) req))"
      from "1.IH"[OF True this] show ?thesis .
    qed
  next
    case False
    with "1.prems" show ?thesis by (subst (asm) spec_walk.simps) simp
  qed
qed

lemma alignUp_ahead:
  assumes "si \<noteq> 0" and "ptr < req"
    and "unat (req - 1) - unat (req - 1) mod unat si + unat si < 2 ^ 64"
  shows "(ptr :: uint64) < ptr - ptr mod si + si"
proof -
  define base where "base = ptr - ptr mod si"
  have m: "unat (ptr mod si) = unat ptr mod unat si" by (simp add: unat_mod)
  have sipos: "0 < unat si" using assms(1) by (simp add: unat_gt_0)
  have le: "ptr mod si \<le> ptr" by (simp add: word_le_nat_alt m)
  have s: "unat base = unat ptr - unat ptr mod unat si"
    unfolding base_def using le by (simp add: unat_sub m)
  have lt: "unat ptr < unat req" using assms(2) by (simp add: word_less_nat_alt)
  then have "req \<noteq> 0" by (auto simp: unat_eq_zero)
  then have r1: "unat (req - 1) = unat req - 1" by (rule unat_minus_one)
  have ple: "unat ptr \<le> unat (req - 1)" using lt r1 by simp
  have d1: "unat ptr - unat ptr mod unat si = unat ptr div unat si * unat si"
    by (simp add: minus_mod_eq_div_mult)
  have d2: "unat (req - 1) - unat (req - 1) mod unat si = unat (req - 1) div unat si * unat si"
    by (simp add: minus_mod_eq_div_mult)
  have "unat ptr div unat si * unat si \<le> unat (req - 1) div unat si * unat si"
    using ple by (simp add: div_le_mono)
  then have "unat base + unat si < 2 ^ 64"
    using s d1 d2 assms(3) by linarith
  then have a: "unat (base + si) = unat base + unat si"
    by (simp add: unat_add_lem[THEN iffD1])
  have "unat ptr mod unat si < unat si" using sipos by simp
  then have "unat ptr < unat base + unat si"
    unfolding s by linarith
  then have "ptr < base + si" by (simp add: word_less_nat_alt a)
  then show ?thesis by (simp add: base_def)
qed

lemma minOf_ahead:
  assumes "si \<noteq> 0" and "ptr < req" and "unat (req - 1) - unat (req - 1) mod unat si + unat si < 2 ^ 64"
  shows "ptr < minOf (ptr - ptr mod si + si) req" and "minOf (ptr - ptr mod si + si) req \<le> req"
  using alignUp_ahead[OF assms] assms(2) by (auto simp: minOf_def)

lemma spec_walk_contiguous:
  assumes "si \<noteq> 0" and "unat (req - 1) - unat (req - 1) mod unat si + unat si < 2 ^ 64"
  shows "ptr \<le> req \<Longrightarrow> contiguous ptr req (spec_walk si req ptr)"
proof (induction "unat req - unat ptr" arbitrary: ptr rule: less_induct)
  case less
  show ?case
  proof (cases "ptr < req")
    case True
    let ?e = "minOf (ptr - ptr mod si + si) req"
    from minOf_ahead[OF assms(1) True assms(2)] have a: "ptr < ?e" and b: "?e \<le> req" by auto
    have m: "unat req - unat ?e < unat req - unat ptr"
      using a True by (simp add: word_less_nat_alt)
    from less.hyps[OF m b] have "contiguous ?e req (spec_walk si req ?e)" .
    moreover have "spec_walk si req ptr
        = \<lparr>StartBlock = ptr, ExclusiveEndBlock = ?e\<rparr> # spec_walk si req ?e"
      using True a by (subst spec_walk.simps) (simp add: spec_alignUp_def)
    ultimately show ?thesis using a by simp
  next
    case False
    with less.prems have "ptr = req" by simp
    then show ?thesis by (subst spec_walk.simps) simp
  qed
qed

lemma partialsLoop_step:
  assumes "si \<noteq> 0" and "ptr < req"
  shows "partialsLoop snaps si req ptr w =
    partialsLoop snaps si req (minOf (ptr - ptr mod si + si) req)
      (if \<not> ContainsPartial snaps \<lparr>StartBlock = ptr, ExclusiveEndBlock = minOf (ptr - ptr mod si + si) req\<rparr>
       then w\<lparr>partialsMissing := partialsMissing w @ [\<lparr>StartBlock = ptr, ExclusiveEndBlock = minOf (ptr - ptr mod si + si) req\<rparr>]\<rparr>
       else w\<lparr>partialsPresent := partialsPresent w @ [\<lparr>StartBlock = ptr, ExclusiveEndBlock = minOf (ptr - ptr mod si + si) req\<rparr>]\<rparr>)"
  using assms by (subst partialsLoop.simps) (simp add: Let_def NewRange_def)


lemma partialsLoop_total:
  assumes "si \<noteq> 0" and "unat (req - 1) - unat (req - 1) mod unat si + unat si < 2 ^ 64"
  shows "partialsLoop snaps si req ptr w =
    Some (Inr (w\<lparr>partialsMissing := partialsMissing w
                   @ filter (\<lambda>r. \<not> ContainsPartial snaps r) (spec_walk si req ptr),
                 partialsPresent := partialsPresent w
                   @ filter (ContainsPartial snaps) (spec_walk si req ptr)\<rparr>))"
proof (induction "unat req - unat ptr" arbitrary: ptr w rule: less_induct)
  case less
  show ?case
  proof (cases "ptr < req")
    case True
    define e where "e = minOf (ptr - ptr mod si + si) req"
    define p where "p = \<lparr>StartBlock = ptr, ExclusiveEndBlock = e\<rparr>"
    from minOf_ahead[OF assms(1) True assms(2)] have a: "ptr < e" and b: "e \<le> req"
      by (auto simp: e_def)
    have m: "unat req - unat e < unat req - unat ptr"
      using a True by (simp add: word_less_nat_alt)
    have walk: "spec_walk si req ptr = p # spec_walk si req e"
      using True a by (subst spec_walk.simps) (simp add: spec_alignUp_def e_def p_def)
    show ?thesis
      unfolding partialsLoop_step[OF assms(1) True, of snaps w] walk
      unfolding e_def[symmetric] p_def[symmetric]
      by (simp add: less.hyps[OF m])
  next
    case False
    then have "spec_walk si req ptr = []" by (subst spec_walk.simps) simp
    moreover have "partialsLoop snaps si req ptr w = Some (Inr w)"
      using False by (subst partialsLoop.simps) simp
    ultimately show ?thesis by simp
  qed
qed

lemma partialsLoop_planned:
  "partialsLoop snaps si req ptr w = Some y \<Longrightarrow>
   (\<forall>w'. y = Inr w' \<longrightarrow> planned snaps si req w \<longrightarrow>
      planned snaps si req w' \<and> initialStoreFile w' = initialStoreFile w
      \<and> modName w' = modName w)"
proof (erule partialsLoop.raw_induct[where P="\<lambda>snaps si req ptr w y.
     \<forall>w'. y = Inr w' \<longrightarrow> planned snaps si req w \<longrightarrow>
      planned snaps si req w' \<and> initialStoreFile w' = initialStoreFile w
      \<and> modName w' = modName w", rotated])
  fix f :: "Snapshots \<Rightarrow> uint64 \<Rightarrow> uint64 \<Rightarrow> uint64 \<Rightarrow> WorkUnit \<Rightarrow> (abort + WorkUnit) option"
    and snaps :: Snapshots and si req ptr :: uint64 and w :: WorkUnit
    and y :: "abort + WorkUnit"
  assume ih: "\<And>snaps si req ptr w y. f snaps si req ptr w = Some y \<Longrightarrow>
     \<forall>w'. y = Inr w' \<longrightarrow> planned snaps si req w \<longrightarrow>
      planned snaps si req w' \<and> initialStoreFile w' = initialStoreFile w
      \<and> modName w' = modName w"
  assume prem: "(if ptr < req then
       if si = 0 then Some (Inl IntegerDivideByZero)
       else
         let end = minOf (ptr - ptr mod si + si) req;
             newPartial = NewRange ptr end;
             work1 = (if \<not> ContainsPartial snaps newPartial
                      then w\<lparr>partialsMissing := partialsMissing w @ [newPartial]\<rparr>
                      else w\<lparr>partialsPresent := partialsPresent w @ [newPartial]\<rparr>)
         in f snaps si req end work1
     else Some (Inr w)) = Some y"
  show "\<forall>w'. y = Inr w' \<longrightarrow> planned snaps si req w \<longrightarrow>
      planned snaps si req w' \<and> initialStoreFile w' = initialStoreFile w
      \<and> modName w' = modName w"
  proof (intro allI impI)
    fix w'
    assume y: "y = Inr w'" and pl: "planned snaps si req w"
    show "planned snaps si req w' \<and> initialStoreFile w' = initialStoreFile w
      \<and> modName w' = modName w"
    proof (cases "ptr < req")
      case False
      with prem y show ?thesis using pl by simp
    next
      case True
      define e where "e = minOf (ptr - ptr mod si + si) req"
      define p where "p = \<lparr>StartBlock = ptr, ExclusiveEndBlock = e\<rparr>"
      define w1 where "w1 = (if \<not> ContainsPartial snaps p
                      then w\<lparr>partialsMissing := partialsMissing w @ [p]\<rparr>
                      else w\<lparr>partialsPresent := partialsPresent w @ [p]\<rparr>)"
      from True prem y have si: "si \<noteq> 0" by (auto split: if_splits)
      with True prem have call: "f snaps si req e w1 = Some y"
        by (auto simp: Let_def NewRange_def e_def p_def w1_def split: if_splits)
      have pl1: "planned snaps si req w1"
        using pl True by (auto simp: planned_def w1_def p_def e_def)
      have same: "initialStoreFile w1 = initialStoreFile w" "modName w1 = modName w"
        by (simp_all add: w1_def)
      from ih[OF call] y pl1 same show ?thesis by simp
    qed
  qed
qed

lemma StoresSplitWork_planned:
  assumes "StoresSplitWork name si modInit req snaps = Some (Inr work)"
  shows "planned snaps si req work"
proof -
  let ?w0 = "\<lparr>modName = name, initialStoreFile = None,
                  partialsMissing = [], partialsPresent = []\<rparr>"
  have p0: "planned snaps si req (?w0\<lparr>initialStoreFile := x\<rparr>)" for x
    by (simp add: planned_def)
  have p00: "planned snaps si req ?w0" by (simp add: planned_def)
  show ?thesis
  proof (cases "req \<le> modInit")
    case True
    with assms p00 show ?thesis by (simp add: StoresSplitWork_def)
  next
    case False
    show ?thesis
    proof (cases "LastCompleteSnapshotBefore snaps req")
      case None
      with False assms have "partialsLoop snaps si req modInit ?w0 = Some (Inr work)"
        by (simp add: StoresSplitWork_def Let_def)
      from partialsLoop_planned[OF this] p00 show ?thesis by simp
    next
      case (Some c)
      show ?thesis
      proof (cases "ExclusiveEndBlock c = req")
        case True
        with False Some assms p0 show ?thesis
          by (auto simp: StoresSplitWork_def Let_def split: if_splits)
      next
        case ne: False
        with False Some assms have "partialsLoop snaps si req (ExclusiveEndBlock c)
            (?w0\<lparr>initialStoreFile := Some (NewRange modInit (ExclusiveEndBlock c))\<rparr>)
              = Some (Inr work)"
          by (auto simp: StoresSplitWork_def Let_def split: if_splits)
        from partialsLoop_planned[OF this] p0 show ?thesis by simp
      qed
    qed
  qed
qed

lemma LastCompleteSnapshotBefore_le:
  "LastCompleteSnapshotBefore s b = Some c \<Longrightarrow> ExclusiveEndBlock c \<le> b"
  unfolding LastCompleteSnapshotBefore_def by (rule LastCompleteSnapshotBefore_list_le)

lemma StoresSplitWork_general:
  assumes si: "saveInterval \<noteq> 0" and lt: "modInitBlock < requestStart"
    and nov: "unat (requestStart - 1) - unat (requestStart - 1) mod unat saveInterval
                + unat saveInterval < 2 ^ 64"
    and init: "\<forall>c. LastCompleteSnapshotBefore snapshots requestStart = Some c
                 \<longrightarrow> modInitBlock < ExclusiveEndBlock c"
  defines "bps \<equiv> (case LastCompleteSnapshotBefore snapshots requestStart of
                     None \<Rightarrow> modInitBlock | Some c \<Rightarrow> ExclusiveEndBlock c)"
  shows "\<exists>work. StoresSplitWork name saveInterval modInitBlock requestStart snapshots
                   = Some (Inr work)
          \<and> initialStoreFile work =
              map_option (\<lambda>c. \<lparr>StartBlock = modInitBlock, ExclusiveEndBlock = ExclusiveEndBlock c\<rparr>)
                (LastCompleteSnapshotBefore snapshots requestStart)
          \<and> partialsMissing work =
              filter (\<lambda>r. \<not> ContainsPartial snapshots r) (spec_walk saveInterval requestStart bps)
          \<and> partialsPresent work =
              filter (ContainsPartial snapshots) (spec_walk saveInterval requestStart bps)
          \<and> contiguous bps requestStart (spec_walk saveInterval requestStart bps)
          \<and> (\<forall>r \<in> set (spec_walk saveInterval requestStart bps).
                ExclusiveEndBlock r
                  = minOf (StartBlock r - StartBlock r mod saveInterval + saveInterval) requestStart)"
proof -
  have nle: "\<not> requestStart \<le> modInitBlock" using lt by simp
  have bps_le: "bps \<le> requestStart"
    using lt LastCompleteSnapshotBefore_le[of snapshots requestStart]
    by (auto simp: bps_def split: option.splits)
  have cont: "contiguous bps requestStart (spec_walk saveInterval requestStart bps)"
    by (rule spec_walk_contiguous[OF si nov bps_le])
  have ends: "\<forall>r \<in> set (spec_walk saveInterval requestStart bps).
                ExclusiveEndBlock r
                  = minOf (StartBlock r - StartBlock r mod saveInterval + saveInterval) requestStart"
    using spec_walk_ends by blast
  show ?thesis
  proof (cases "LastCompleteSnapshotBefore snapshots requestStart")
    case None
    then show ?thesis using nle cont ends
      by (simp add: StoresSplitWork_def Let_def partialsLoop_total[OF si nov] bps_def)
  next
    case (Some c)
    with init have c: "\<not> ExclusiveEndBlock c \<le> modInitBlock" by (simp add: not_le)
    show ?thesis
    proof (cases "ExclusiveEndBlock c = requestStart")
      case True
      then have "spec_walk saveInterval requestStart bps = []"
        using Some by (subst spec_walk.simps) (simp add: bps_def)
      then show ?thesis using nle Some c True cont
        by (simp add: StoresSplitWork_def Let_def NewRange_def bps_def)
    next
      case False
      then show ?thesis using nle Some c cont ends
        by (simp add: StoresSplitWork_def Let_def NewRange_def partialsLoop_total[OF si nov] bps_def)
    qed
  qed
qed

subsection \<open>Claim C1: the partials planned by \<open>StoresSplitWork\<close>\<close>

text \<open>
  C1.  For a store module with initial block 0, save interval 1000 and request start
  3500, no complete snapshot and exactly the partial \<open>[1000, 2000)\<close> on storage,
  \<open>StoresSplitWork\<close> returns a work unit without initial store file, with
  \<open>partialsMissing = [[0,1000), [2000,3000), [3000,3500)]\<close> in that order and
  \<open>partialsPresent = [[1000,2000)]\<close>.  In general, with no condition on the inputs:
  in every work unit that \<open>StoresSplitWork\<close> returns, each produced range starts at a
  \<open>ptr\<close> before the request start and is
  \<open>[ptr, min(ptr - ptr mod saveInterval + saveInterval, requestStart))\<close>, it is listed
  as present iff a partial file for it exists on storage, and as missing otherwise.
  Moreover the planner does return, and produces exactly the ranges of the walk from
  \<open>backProcessStart\<close>, contiguous up to the request start, whenever the save interval
  is not zero, the request starts after the module's initial block, the latest
  complete snapshot, if any, ends after the initial block, and the save-interval
  boundary after block \<open>requestStart - 1\<close> fits in 64 bits.
\<close>

theorem StoresSplitWork_plans_partials:
  "StoresSplitWork ''m'' 1000 0 3500
      \<lparr>Completes = [], Partials = [\<lparr>StartBlock = 1000, ExclusiveEndBlock = 2000\<rparr>]\<rparr>
    = Some (Inr \<lparr>modName = ''m'', initialStoreFile = None,
         partialsMissing = [\<lparr>StartBlock = 0, ExclusiveEndBlock = 1000\<rparr>,
                            \<lparr>StartBlock = 2000, ExclusiveEndBlock = 3000\<rparr>,
                            \<lparr>StartBlock = 3000, ExclusiveEndBlock = 3500\<rparr>],
         partialsPresent = [\<lparr>StartBlock = 1000, ExclusiveEndBlock = 2000\<rparr>]\<rparr>)
   \<and> (StoresSplitWork name saveInterval modInitBlock requestStart snapshots = Some (Inr work)
      \<longrightarrow> (\<forall>r \<in> set (partialsMissing work).
            StartBlock r < requestStart
            \<and> ExclusiveEndBlock r
                = minOf (StartBlock r - StartBlock r mod saveInterval + saveInterval)
                    requestStart
            \<and> \<not> ContainsPartial snapshots r)
        \<and> (\<forall>r \<in> set (partialsPresent work).
            StartBlock r < requestStart
            \<and> ExclusiveEndBlock r
                = minOf (StartBlock r - StartBlock r mod saveInterval + saveInterval)
                    requestStart
            \<and> ContainsPartial snapshots r))
   \<and> (saveInterval \<noteq> 0 \<and> modInitBlock < requestStart
        \<and> unat (requestStart - 1) - unat (requestStart - 1) mod unat saveInterval
              + unat saveInterval < 2 ^ 64
        \<and> (\<forall>c. LastCompleteSnapshotBefore snapshots requestStart = Some c
                 \<longrightarrow> modInitBlock < ExclusiveEndBlock c)
      \<longrightarrow> (\<exists>planned_work.
            StoresSplitWork name saveInterval modInitBlock requestStart snapshots
              = Some (Inr planned_work)
          \<and> partialsMissing planned_work =
              filter (\<lambda>r. \<not> ContainsPartial snapshots r)
                (spec_walk saveInterval requestStart
                  (case LastCompleteSnapshotBefore snapshots requestStart of
                     None \<Rightarrow> modInitBlock | Some c \<Rightarrow> ExclusiveEndBlock c))
          \<and> partialsPresent planned_work =
              filter (ContainsPartial snapshots)
                (spec_walk saveInterval requestStart
                  (case LastCompleteSnapshotBefore snapshots requestStart of
                     None \<Rightarrow> modInitBlock | Some c \<Rightarrow> ExclusiveEndBlock c))
          \<and> contiguous
                (case LastCompleteSnapshotBefore snapshots requestStart of
                   None \<Rightarrow> modInitBlock | Some c \<Rightarrow> ExclusiveEndBlock c)
                requestStart
                (spec_walk saveInterval requestStart
                  (case LastCompleteSnapshotBefore snapshots requestStart of
                     None \<Rightarrow> modInitBlock | Some c \<Rightarrow> ExclusiveEndBlock c))
          \<and> (\<forall>r \<in> set (spec_walk saveInterval requestStart
                  (case LastCompleteSnapshotBefore snapshots requestStart of
                     None \<Rightarrow> modInitBlock | Some c \<Rightarrow> ExclusiveEndBlock c)).
                ExclusiveEndBlock r
                  = minOf (StartBlock r - StartBlock r mod saveInterval + saveInterval)
                      requestStart)))"
proof (intro conjI impI)
  show "StoresSplitWork ''m'' 1000 0 3500
      \<lparr>Completes = [], Partials = [\<lparr>StartBlock = 1000, ExclusiveEndBlock = 2000\<rparr>]\<rparr>
    = Some (Inr \<lparr>modName = ''m'', initialStoreFile = None,
         partialsMissing = [\<lparr>StartBlock = 0, ExclusiveEndBlock = 1000\<rparr>,
                            \<lparr>StartBlock = 2000, ExclusiveEndBlock = 3000\<rparr>,
                            \<lparr>StartBlock = 3000, ExclusiveEndBlock = 3500\<rparr>],
         partialsPresent = [\<lparr>StartBlock = 1000, ExclusiveEndBlock = 2000\<rparr>]\<rparr>)"
    by (simp add: StoresSplitWork_def LastCompleteSnapshotBefore_def partialsLoop.simps
        minOf_def NewRange_def ContainsPartial_def Equals_def Let_def)
next
  assume "StoresSplitWork name saveInterval modInitBlock requestStart snapshots
            = Some (Inr work)"
  from StoresSplitWork_planned[OF this]
  show "\<forall>r \<in> set (partialsMissing work).
            StartBlock r < requestStart
            \<and> ExclusiveEndBlock r
                = minOf (StartBlock r - StartBlock r mod saveInterval + saveInterval)
                    requestStart
            \<and> \<not> ContainsPartial snapshots r"
    and "\<forall>r \<in> set (partialsPresent work).
            StartBlock r < requestStart
            \<and> ExclusiveEndBlock r
                = minOf (StartBlock r - StartBlock r mod saveInterval + saveInterval)
                    requestStart
            \<and> ContainsPartial snapshots r"
    by (simp_all add: planned_def)
next
  assume a: "saveInterval \<noteq> 0 \<and> modInitBlock < requestStart
        \<and> unat (requestStart - 1) - unat (requestStart - 1) mod unat saveInterval
              + unat saveInterval < 2 ^ 64
        \<and> (\<forall>c. LastCompleteSnapshotBefore snapshots requestStart = Some c
                 \<longrightarrow> modInitBlock < ExclusiveEndBlock c)"
  then have a1: "saveInterval \<noteq> 0" and a2: "modInitBlock < requestStart"
    and a3: "unat (requestStart - 1) - unat (requestStart - 1) mod unat saveInterval
              + unat saveInterval < 2 ^ 64"
    and a4: "\<forall>c. LastCompleteSnapshotBefore snapshots requestStart = Some c
                 \<longrightarrow> modInitBlock < ExclusiveEndBlock c" by blast+
  from StoresSplitWork_general[OF a1 a2 a3 a4, of name]
  show "\<exists>planned_work.
            StoresSplitWork name saveInterval modInitBlock requestStart snapshots
              = Some (Inr planned_work)
          \<and> partialsMissing planned_work =
              filter (\<lambda>r. \<not> ContainsPartial snapshots r)
                (spec_walk saveInterval requestStart
                  (case LastCompleteSnapshotBefore snapshots requestStart of
                     None \<Rightarrow> modInitBlock | Some c \<Rightarrow> ExclusiveEndBlock c))
          \<and> partialsPresent planned_work =
              filter (ContainsPartial snapshots)
                (spec_walk saveInterval requestStart
                  (case LastCompleteSnapshotBefore snapshots requestStart of
                     None \<Rightarrow> modInitBlock | Some c \<Rightarrow> ExclusiveEndBlock c))
          \<and> contiguous
                (case LastCompleteSnapshotBefore snapshots requestStart of
                   None \<Rightarrow> modInitBlock | Some c \<Rightarrow> ExclusiveEndBlock c)
                requestStart
                (spec_walk saveInterval requestStart
                  (case LastCompleteSnapshotBefore snapshots requestStart of
                     None \<Rightarrow> modInitBlock | Some c \<Rightarrow> ExclusiveEndBlock c))
          \<and> (\<forall>r \<in> set (spec_walk saveInterval requestStart
                  (case LastCompleteSnapshotBefore snapshots requestStart of
                     None \<Rightarrow> modInitBlock | Some c \<Rightarrow> ExclusiveEndBlock c)).
                ExclusiveEndBlock r
                  = minOf (StartBlock r - StartBlock r mod saveInterval + saveInterval)
                      requestStart)"
    by blast
qed

text \<open>
  C1, witness: the two general parts at the inputs of the scenario, and the planner's
  return for a request that ends two blocks short of the 64-bit range.
\<close>

theorem StoresSplitWork_plans_partials_witness:
  "(1000 :: uint64) \<noteq> 0 \<and> (0 :: uint64) < 3500
   \<and> unat (3500 - 1 :: uint64) - unat (3500 - 1 :: uint64) mod unat (1000 :: uint64)
         + unat (1000 :: uint64) < 2 ^ 64
   \<and> LastCompleteSnapshotBefore
        \<lparr>Completes = [], Partials = [\<lparr>StartBlock = 1000, ExclusiveEndBlock = 2000\<rparr>]\<rparr> 3500 = None
   \<and> (\<exists>w. StoresSplitWork ''m'' 1000 0 3500
          \<lparr>Completes = [], Partials = [\<lparr>StartBlock = 1000, ExclusiveEndBlock = 2000\<rparr>]\<rparr>
            = Some (Inr w)
         \<and> partialsMissing w =
              filter (\<lambda>r. \<not> ContainsPartial
                  \<lparr>Completes = [], Partials = [\<lparr>StartBlock = 1000, ExclusiveEndBlock = 2000\<rparr>]\<rparr> r)
                (spec_walk 1000 3500 0)
         \<and> partialsPresent w = [\<lparr>StartBlock = 1000, ExclusiveEndBlock = 2000\<rparr>]
         \<and> contiguous 0 3500 (spec_walk 1000 3500 0)
         \<and> (\<forall>r \<in> set (partialsMissing w).
              ExclusiveEndBlock r = minOf (StartBlock r - StartBlock r mod 1000 + 1000) 3500
              \<and> \<not> ContainsPartial
                  \<lparr>Completes = [], Partials = [\<lparr>StartBlock = 1000, ExclusiveEndBlock = 2000\<rparr>]\<rparr> r))
   \<and> (\<exists>w. StoresSplitWork ''m'' 7 18446744073709551600 18446744073709551614
              \<lparr>Completes = [], Partials = []\<rparr> = Some (Inr w)
         \<and> contiguous 18446744073709551600 18446744073709551614
              (spec_walk 7 18446744073709551614 18446744073709551600))"
proof -
  let ?S = "\<lparr>Completes = [], Partials = [\<lparr>StartBlock = 1000, ExclusiveEndBlock = 2000\<rparr>]\<rparr>"
  let ?E = "\<lparr>Completes = [], Partials = []\<rparr>"
  note t = StoresSplitWork_plans_partials[where saveInterval = 1000 and modInitBlock = 0
      and requestStart = 3500 and name = "''m''" and snapshots = ?S]
  note total = t[THEN conjunct2, THEN conjunct2]
  have h1: "(1000 :: uint64) \<noteq> 0" by simp
  have h2: "(0 :: uint64) < 3500" by simp
  have h3: "unat (3500 - 1 :: uint64) - unat (3500 - 1 :: uint64) mod unat (1000 :: uint64)
         + unat (1000 :: uint64) < 2 ^ 64" by simp
  have n: "LastCompleteSnapshotBefore ?S 3500 = None"
    by (simp add: LastCompleteSnapshotBefore_def)
  then have h4: "\<forall>c. LastCompleteSnapshotBefore ?S 3500 = Some c \<longrightarrow> 0 < ExclusiveEndBlock c"
    by simp
  from total h1 h2 h3 h4 obtain w where w1: "StoresSplitWork ''m'' 1000 0 3500 ?S = Some (Inr w)"
    and w2: "partialsMissing w = filter (\<lambda>r. \<not> ContainsPartial ?S r)
        (spec_walk 1000 3500 (case LastCompleteSnapshotBefore ?S 3500 of
           None \<Rightarrow> 0 | Some c \<Rightarrow> ExclusiveEndBlock c))"
    and w4: "contiguous (case LastCompleteSnapshotBefore ?S 3500 of
           None \<Rightarrow> 0 | Some c \<Rightarrow> ExclusiveEndBlock c) 3500
        (spec_walk 1000 3500 (case LastCompleteSnapshotBefore ?S 3500 of
           None \<Rightarrow> 0 | Some c \<Rightarrow> ExclusiveEndBlock c))"
    by blast
  note shape = t[where work = w, THEN conjunct2, THEN conjunct1, THEN mp, OF w1, THEN conjunct1]
  have sh: "\<forall>r \<in> set (partialsMissing w).
              ExclusiveEndBlock r = minOf (StartBlock r - StartBlock r mod 1000 + 1000) 3500
              \<and> \<not> ContainsPartial ?S r"
    using shape by blast
  from t[THEN conjunct1] w1
  have pp: "partialsPresent w = [\<lparr>StartBlock = 1000, ExclusiveEndBlock = 2000\<rparr>]"
    by simp
  note t2 = StoresSplitWork_plans_partials[where saveInterval = 7
      and modInitBlock = 18446744073709551600 and requestStart = 18446744073709551614
      and name = "''m''" and snapshots = ?E, THEN conjunct2, THEN conjunct2]
  have g1: "(7 :: uint64) \<noteq> 0" by simp
  have g2: "(18446744073709551600 :: uint64) < 18446744073709551614" by simp
  have g3: "unat (18446744073709551614 - 1 :: uint64)
         - unat (18446744073709551614 - 1 :: uint64) mod unat (7 :: uint64)
         + unat (7 :: uint64) < 2 ^ 64" by simp
  have n2: "LastCompleteSnapshotBefore ?E 18446744073709551614 = None"
    by (simp add: LastCompleteSnapshotBefore_def)
  then have g4: "\<forall>c. LastCompleteSnapshotBefore ?E 18446744073709551614 = Some c
      \<longrightarrow> 18446744073709551600 < ExclusiveEndBlock c" by simp
  from t2 g1 g2 g3 g4 obtain v where
    v1: "StoresSplitWork ''m'' 7 18446744073709551600 18446744073709551614 ?E = Some (Inr v)"
    and v4: "contiguous (case LastCompleteSnapshotBefore ?E 18446744073709551614 of
           None \<Rightarrow> 18446744073709551600 | Some c \<Rightarrow> ExclusiveEndBlock c) 18446744073709551614
        (spec_walk 7 18446744073709551614
          (case LastCompleteSnapshotBefore ?E 18446744073709551614 of
           None \<Rightarrow> 18446744073709551600 | Some c \<Rightarrow> ExclusiveEndBlock c))"
    by blast
  have big: "\<exists>w. StoresSplitWork ''m'' 7 18446744073709551600 18446744073709551614 ?E
                = Some (Inr w)
         \<and> contiguous 18446744073709551600 18446744073709551614
              (spec_walk 7 18446744073709551614 18446744073709551600)"
    using v1 v4 unfolding n2 by (intro exI[of _ v]) simp
  have small: "\<exists>w. StoresSplitWork ''m'' 1000 0 3500 ?S = Some (Inr w)
         \<and> partialsMissing w = filter (\<lambda>r. \<not> ContainsPartial ?S r) (spec_walk 1000 3500 0)
         \<and> partialsPresent w = [\<lparr>StartBlock = 1000, ExclusiveEndBlock = 2000\<rparr>]
         \<and> contiguous 0 3500 (spec_walk 1000 3500 0)
         \<and> (\<forall>r \<in> set (partialsMissing w).
              ExclusiveEndBlock r = minOf (StartBlock r - StartBlock r mod 1000 + 1000) 3500
              \<and> \<not> ContainsPartial ?S r)"
    using w1 w2 w4 pp sh unfolding n by (intro exI[of _ w]) simp
  from h1 h2 h3 n small big show ?thesis by (intro conjI)
qed

subsection \<open>Claim C2: the initial store file\<close>

text \<open>
  C2, the code at a failing input.  With save interval 1000, request start 3000 and
  the complete snapshot \<open>[0, 2000)\<close>, \<open>MapsSplitWork\<close> returns the initial file
  \<open>[3000, 2000)\<close>: it starts at the request start, not at the module's initial block,
  and is inverted.  \<open>StoresSplitWork\<close>, for a module with initial block 0 and the same
  inputs, returns \<open>[0, 2000)\<close>.
\<close>

theorem MapsSplitWork_initial_file_starts_at_request:
  "MapsSplitWork ''m'' 1000 3000
      \<lparr>Completes = [\<lparr>StartBlock = 0, ExclusiveEndBlock = 2000\<rparr>], Partials = []\<rparr>
    = Some (Inr \<lparr>modName = ''m'',
         initialStoreFile = Some \<lparr>StartBlock = 3000, ExclusiveEndBlock = 2000\<rparr>,
         partialsMissing = [\<lparr>StartBlock = 2000, ExclusiveEndBlock = 3000\<rparr>],
         partialsPresent = []\<rparr>)
   \<and> StoresSplitWork ''m'' 1000 0 3000
      \<lparr>Completes = [\<lparr>StartBlock = 0, ExclusiveEndBlock = 2000\<rparr>], Partials = []\<rparr>
    = Some (Inr \<lparr>modName = ''m'',
         initialStoreFile = Some \<lparr>StartBlock = 0, ExclusiveEndBlock = 2000\<rparr>,
         partialsMissing = [\<lparr>StartBlock = 2000, ExclusiveEndBlock = 3000\<rparr>],
         partialsPresent = []\<rparr>)"
  by (simp add: MapsSplitWork_def StoresSplitWork_def LastCompleteSnapshotBefore_def
      partialsLoop.simps minOf_def NewRange_def ContainsPartial_def Equals_def Let_def)

subsection \<open>Claim C10: a request at or before the module's initial block\<close>

text \<open>
  C10.  When the request's start block is at or before the module's initial block,
  \<open>StoresSplitWork\<close> returns a work unit that carries only the module's name: no
  initial store file and no partials, missing or present, whatever the snapshots are.
\<close>

theorem StoresSplitWork_request_at_or_before_init:
  "incomingReqStartBlock \<le> modInitBlock \<Longrightarrow>
   StoresSplitWork name storeSaveInterval modInitBlock incomingReqStartBlock snapshots
     = Some (Inr \<lparr>modName = name, initialStoreFile = None,
                  partialsMissing = [], partialsPresent = []\<rparr>)"
  by (simp add: StoresSplitWork_def)

text \<open>
  C10, witness: request start 500 for a module with initial block 500, with a
  complete snapshot and a partial on storage.
\<close>

theorem StoresSplitWork_request_at_or_before_init_witness:
  "(500 :: uint64) \<le> 500
   \<and> StoresSplitWork ''m'' 100 500 500
        \<lparr>Completes = [\<lparr>StartBlock = 0, ExclusiveEndBlock = 300\<rparr>],
          Partials = [\<lparr>StartBlock = 300, ExclusiveEndBlock = 400\<rparr>]\<rparr>
     = Some (Inr \<lparr>modName = ''m'', initialStoreFile = None,
                  partialsMissing = [], partialsPresent = []\<rparr>)"
proof -
  have h: "(500 :: uint64) \<le> 500" by simp
  from StoresSplitWork_request_at_or_before_init[OF h] h show ?thesis by blast
qed

section \<open>Properties of progress reporting\<close>

subsection \<open>Claim C8: progress messages\<close>

text \<open>
  C8, counterexample.  The claim has one progress message for each module of the work
  plan.  A module whose work unit has no initial store file gets none, even with
  partials present: the loop skips it at its first statement.
\<close>

theorem ProgressMessages_skips_unit_without_initial_file:
  "ProgressMessages
     [(''m'', \<lparr>modName = ''m'', initialStoreFile = None, partialsMissing = [],
              partialsPresent = [\<lparr>StartBlock = 0, ExclusiveEndBlock = 1000\<rparr>]\<rparr>)] = []"
  by simp

text \<open>
  C8, as amended.  For each module of the work plan whose work unit has an initial
  store file, and for no other, \<open>ProgressMessages\<close> emits one progress message, in
  the order of the visit; it carries the module's name and a list of processed ranges
  made of the range of the initial store file followed by the merged ranges of
  \<open>partialsPresent\<close>.
\<close>

theorem ProgressMessages_reports_units_with_initial_file:
  "ProgressMessages p =
     map (\<lambda>(storeName, unit).
            \<lparr>Name = storeName,
              ProcessedRanges =
                \<lparr>BlockRange_StartBlock = StartBlock (the (initialStoreFile unit)),
                  BlockRange_EndBlock = ExclusiveEndBlock (the (initialStoreFile unit))\<rparr>
                # map (\<lambda>rng. \<lparr>BlockRange_StartBlock = StartBlock rng,
                               BlockRange_EndBlock = ExclusiveEndBlock rng\<rparr>)
                      (Merged (partialsPresent unit))\<rparr>)
         (filter (\<lambda>(storeName, unit). initialStoreFile unit \<noteq> None) p)"
  by (induction p rule: ProgressMessages.induct)
     (auto simp: initialProcessedPartials_def Let_def split: option.splits)

text \<open>
  C8, witness: a plan of two modules, one with an initial store file and three
  partials present, two of them adjacent, and one without an initial store file.
\<close>

theorem ProgressMessages_reports_units_with_initial_file_witness:
  "ProgressMessages
     [(''a'', \<lparr>modName = ''a'', initialStoreFile = Some \<lparr>StartBlock = 0, ExclusiveEndBlock = 1000\<rparr>,
              partialsMissing = [\<lparr>StartBlock = 3000, ExclusiveEndBlock = 4000\<rparr>],
              partialsPresent = [\<lparr>StartBlock = 1000, ExclusiveEndBlock = 2000\<rparr>,
                                 \<lparr>StartBlock = 2000, ExclusiveEndBlock = 3000\<rparr>,
                                 \<lparr>StartBlock = 4000, ExclusiveEndBlock = 5000\<rparr>]\<rparr>),
      (''b'', \<lparr>modName = ''b'', initialStoreFile = None, partialsMissing = [],
              partialsPresent = [\<lparr>StartBlock = 0, ExclusiveEndBlock = 1000\<rparr>]\<rparr>)]
   = [\<lparr>Name = ''a'',
       ProcessedRanges = [\<lparr>BlockRange_StartBlock = 0, BlockRange_EndBlock = 1000\<rparr>,
                          \<lparr>BlockRange_StartBlock = 1000, BlockRange_EndBlock = 3000\<rparr>,
                          \<lparr>BlockRange_StartBlock = 4000, BlockRange_EndBlock = 5000\<rparr>]\<rparr>]"
  using ProgressMessages_reports_units_with_initial_file[of
     "[(''a'', \<lparr>modName = ''a'', initialStoreFile = Some \<lparr>StartBlock = 0, ExclusiveEndBlock = 1000\<rparr>,
              partialsMissing = [\<lparr>StartBlock = 3000, ExclusiveEndBlock = 4000\<rparr>],
              partialsPresent = [\<lparr>StartBlock = 1000, ExclusiveEndBlock = 2000\<rparr>,
                                 \<lparr>StartBlock = 2000, ExclusiveEndBlock = 3000\<rparr>,
                                 \<lparr>StartBlock = 4000, ExclusiveEndBlock = 5000\<rparr>]\<rparr>),
      (''b'', \<lparr>modName = ''b'', initialStoreFile = None, partialsMissing = [],
              partialsPresent = [\<lparr>StartBlock = 0, ExclusiveEndBlock = 1000\<rparr>]\<rparr>)]"]
  by simp

section \<open>Properties of WASM execution and of the mapper executor\<close>

subsection \<open>Claim C5: the result of \<open>Execute\<close>\<close>

text \<open>
  C5, counterexample.  The claim has \<open>Execute\<close> return an error whenever the panic
  slot is set at return time.  A guest that registers a panic and then returns
  normally leaves the slot set, and \<open>Execute\<close> returns \<open>nil\<close>: the slot is read only
  on the error path of the call.
\<close>

theorem Execute_normal_return_with_panic_slot_set:
  "fst (Execute (\<lambda>a i. (None, i\<lparr>panicError := Some (PanicError ''boom'')\<rparr>))
          \<lparr>args = [], returnValue = None, panicError = None, functionName = ''map_transfers'',
            Logs = [], LogsByteCount = 0\<rparr>) = None
   \<and> panicError (snd (Execute (\<lambda>a i. (None, i\<lparr>panicError := Some (PanicError ''boom'')\<rparr>))
          \<lparr>args = [], returnValue = None, panicError = None, functionName = ''map_transfers'',
            Logs = [], LogsByteCount = 0\<rparr>)) = Some (PanicError ''boom'')"
  by (simp add: Execute_def)

text \<open>
  C5, as amended.  \<open>Execute\<close> returns success (\<open>nil\<close>) when the guest entry point
  returns normally or exits with code 0, whatever the panic slot holds.  For every
  other error of the call (a nonzero exit code, a trap) it returns an error: the
  recorded panic error when the panic slot is set at return time, and otherwise the
  call's error wrapped with the name of the entry point.
\<close>

theorem Execute_outcomes:
  "(call (args i) i = (None, i1) \<longrightarrow> Execute call i = (None, i1))
   \<and> (call (args i) i = (Some (ExitError 0), i1) \<longrightarrow> Execute call i = (None, i1))
   \<and> (call (args i) i = (Some err, i1) \<and> err \<noteq> ExitError 0 \<longrightarrow>
        Execute call i =
          (Some (case panicError i1 of
                   Some p \<Rightarrow> Panicked p
                 | None \<Rightarrow> ExecutingEntrypoint (functionName i1) err), i1))"
  by (auto simp: Execute_def split: CallError.splits option.splits)

text \<open>
  C5, witness: a normal return, an exit with code 0, an exit with code 3 after a
  registered panic, and a trap without one.
\<close>

theorem Execute_outcomes_witness:
  "Execute (\<lambda>a i. (None, i))
      \<lparr>args = [], returnValue = None, panicError = None, functionName = ''map_transfers'',
        Logs = [], LogsByteCount = 0\<rparr>
     = (None, \<lparr>args = [], returnValue = None, panicError = None,
               functionName = ''map_transfers'', Logs = [], LogsByteCount = 0\<rparr>)
   \<and> Execute (\<lambda>a i. (Some (ExitError 0), i))
      \<lparr>args = [], returnValue = None, panicError = None, functionName = ''map_transfers'',
        Logs = [], LogsByteCount = 0\<rparr>
     = (None, \<lparr>args = [], returnValue = None, panicError = None,
               functionName = ''map_transfers'', Logs = [], LogsByteCount = 0\<rparr>)
   \<and> Execute (\<lambda>a i. (Some (ExitError 3), i\<lparr>panicError := Some (PanicError ''boom'')\<rparr>))
      \<lparr>args = [], returnValue = None, panicError = None, functionName = ''map_transfers'',
        Logs = [], LogsByteCount = 0\<rparr>
     = (Some (Panicked (PanicError ''boom'')),
        \<lparr>args = [], returnValue = None, panicError = Some (PanicError ''boom''),
          functionName = ''map_transfers'', Logs = [], LogsByteCount = 0\<rparr>)
   \<and> Execute (\<lambda>a i. (Some (OtherError ''unreachable''), i))
      \<lparr>args = [], returnValue = None, panicError = None, functionName = ''map_transfers'',
        Logs = [], LogsByteCount = 0\<rparr>
     = (Some (ExecutingEntrypoint ''map_transfers'' (OtherError ''unreachable'')),
        \<lparr>args = [], returnValue = None, panicError = None,
          functionName = ''map_transfers'', Logs = [], LogsByteCount = 0\<rparr>)"
  using
    Execute_outcomes[of "\<lambda>a i. (None, i)"
      "\<lparr>args = [], returnValue = None, panicError = None, functionName = ''map_transfers'',
        Logs = [], LogsByteCount = 0\<rparr>"
      "\<lparr>args = [], returnValue = None, panicError = None, functionName = ''map_transfers'',
        Logs = [], LogsByteCount = 0\<rparr>"]
    Execute_outcomes[of "\<lambda>a i. (Some (ExitError 0), i)"
      "\<lparr>args = [], returnValue = None, panicError = None, functionName = ''map_transfers'',
        Logs = [], LogsByteCount = 0\<rparr>"
      "\<lparr>args = [], returnValue = None, panicError = None, functionName = ''map_transfers'',
        Logs = [], LogsByteCount = 0\<rparr>"]
    Execute_outcomes[of "\<lambda>a i. (Some (ExitError 3), i\<lparr>panicError := Some (PanicError ''boom'')\<rparr>)"
      "\<lparr>args = [], returnValue = None, panicError = None, functionName = ''map_transfers'',
        Logs = [], LogsByteCount = 0\<rparr>"
      "\<lparr>args = [], returnValue = None, panicError = Some (PanicError ''boom''),
          functionName = ''map_transfers'', Logs = [], LogsByteCount = 0\<rparr>" "ExitError 3"]
    Execute_outcomes[of "\<lambda>a i. (Some (OtherError ''unreachable''), i)"
      "\<lparr>args = [], returnValue = None, panicError = None, functionName = ''map_transfers'',
        Logs = [], LogsByteCount = 0\<rparr>"
      "\<lparr>args = [], returnValue = None, panicError = None, functionName = ''map_transfers'',
        Logs = [], LogsByteCount = 0\<rparr>" "OtherError ''unreachable''"]
  by simp

subsection \<open>Claim C6: execution is skipped when there is no input\<close>

lemma bindInputs_no_input:
  assumes "\<forall>input \<in> set inputs. Type input = InputSource \<longrightarrow> len (vals_at vs (InputName input)) = 0"
    and "\<forall>input \<in> set inputs. Type input \<noteq> InputStore"
  shows "snd (bindInputs vs inputs False) = False"
  using assms
proof (induction inputs)
  case Nil
  then show ?case by simp
next
  case (Cons input rest)
  then have ih: "snd (bindInputs vs rest False) = False" by simp
  show ?case
  proof (cases "Type input")
    case InputSource
    with Cons.prems have "len (vals_at vs (InputName input)) = 0" by simp
    with InputSource ih show ?thesis
      by (cases "bindInputs vs rest False") (simp add: Let_def)
  next
    case InputStore
    with Cons.prems show ?thesis by simp
  next
    case OutputStore
    with ih show ?thesis by (cases "bindInputs vs rest False") simp
  qed
qed

lemma wasmCall_skips:
  assumes "snd (bindInputs vs (wasmInputs e) False) = False"
  shows "wasmCall e vs clock
    = (e\<lparr>wasmInputs := fst (bindInputs vs (wasmInputs e) False)\<rparr>, [], Inr None)"
  using assms by (cases "bindInputs vs (wasmInputs e) False") (simp add: wasmCall_def Let_def)

lemma wasmMapCall_skips:
  assumes "snd (bindInputs vs (wasmInputs e) False) = False"
  shows "wasmMapCall e vs clock
    = (e\<lparr>wasmInputs := fst (bindInputs vs (wasmInputs e) False), mapperOutput := None\<rparr>,
       vs(moduleName e \<mapsto> None), [], None)"
  by (simp add: wasmMapCall_def wasmCall_skips[OF assms] Let_def)

text \<open>
  C6.  When every source input of a mapper has an empty value in the values map and
  the module has no store input, \<open>wasmMapCall\<close> calls neither \<open>NewInstance\<close> nor
  \<open>Execute\<close> and records \<open>nil\<close> both as the mapper output and in the values map under
  the module's name; so does \<open>run\<close> on a cache miss, which reaches \<open>wasmMapCall\<close>.
\<close>

theorem mapper_skips_execution_without_input:
  assumes "\<forall>input \<in> set (wasmInputs e).
             Type input = InputSource \<longrightarrow> len (vals_at vs (InputName input)) = 0"
    and "\<forall>input \<in> set (wasmInputs e). Type input \<noteq> InputStore"
  shows "wasmMapCall e vs clock
           = (e\<lparr>wasmInputs := fst (bindInputs vs (wasmInputs e) False), mapperOutput := None\<rparr>,
              vs(moduleName e \<mapsto> None), [], None)
         \<and> (snd (cache_Get (cache e) clock) = False \<longrightarrow>
              (\<exists>e1 effs err. run e vs clock cursor = (e1, vs(moduleName e \<mapsto> None), effs, err)
                 \<and> mapperOutput e1 = None
                 \<and> NewInstanceCall \<notin> set effs \<and> ExecuteCall \<notin> set effs))"
proof -
  have h: "snd (bindInputs vs (wasmInputs e) False) = False"
    by (rule bindInputs_no_input[OF assms])
  note m = wasmMapCall_skips[OF h, of clock]
  show ?thesis
  proof (intro conjI impI)
    show "wasmMapCall e vs clock
           = (e\<lparr>wasmInputs := fst (bindInputs vs (wasmInputs e) False), mapperOutput := None\<rparr>,
              vs(moduleName e \<mapsto> None), [], None)" by (rule m)
  next
    assume miss: "snd (cache_Get (cache e) clock) = False"
    then obtain out where g: "cache_Get (cache e) clock = (out, False)"
      by (cases "cache_Get (cache e) clock") auto
    show "\<exists>e1 effs err. run e vs clock cursor = (e1, vs(moduleName e \<mapsto> None), effs, err)
                 \<and> mapperOutput e1 = None
                 \<and> NewInstanceCall \<notin> set effs \<and> ExecuteCall \<notin> set effs"
      by (cases "cache_Set (cache e) clock cursor None") (simp_all add: run_def g m)
  qed
qed

text \<open>
  C6, witness: the example mapper at block 150, which its cache does not hold, with
  an empty values map.
\<close>

theorem mapper_skips_execution_without_input_witness:
  "snd (cache_Get (cache example_mapper) \<lparr>Number = 150, Id = ''b150''\<rparr>) = False
   \<and> wasmMapCall example_mapper Map.empty \<lparr>Number = 150, Id = ''b150''\<rparr>
       = (example_mapper\<lparr>mapperOutput := None\<rparr>, [''map_transfers'' \<mapsto> None], [], None)
   \<and> (\<exists>e1 effs err.
         run example_mapper Map.empty \<lparr>Number = 150, Id = ''b150''\<rparr> ''c150''
           = (e1, [''map_transfers'' \<mapsto> None], effs, err)
         \<and> mapperOutput e1 = None
         \<and> NewInstanceCall \<notin> set effs \<and> ExecuteCall \<notin> set effs)"
proof -
  have h1: "\<forall>input \<in> set (wasmInputs example_mapper).
      Type input = InputSource \<longrightarrow> len (vals_at Map.empty (InputName input)) = 0"
    by (simp add: example_mapper_def vals_at_def len_def)
  have h2: "\<forall>input \<in> set (wasmInputs example_mapper). Type input \<noteq> InputStore"
    by (simp add: example_mapper_def)
  have miss: "snd (cache_Get (cache example_mapper) \<lparr>Number = 150, Id = ''b150''\<rparr>) = False"
    by (simp add: example_mapper_def example_cache_def cache_Get_def)
  have b: "fst (bindInputs Map.empty (wasmInputs example_mapper) False) = wasmInputs example_mapper"
    by (simp add: example_mapper_def vals_at_def len_def)
  have n: "moduleName example_mapper = ''map_transfers''"
    by (simp add: example_mapper_def)
  from mapper_skips_execution_without_input[OF h1 h2,
      of "\<lparr>Number = 150, Id = ''b150''\<rparr>" "''c150''"] miss
  show ?thesis by (simp add: b n)
qed

subsection \<open>Claim C7: cache hits\<close>

text \<open>
  C7.  When the cache holds the output of the block, \<open>run\<close> stores the cached bytes
  as the mapper output and returns success, with no call of \<open>NewInstance\<close>, of
  \<open>Execute\<close> or of the cache's \<open>Set\<close>, and with the cache as it was.  Therefore
  running over a list of blocks that the cache holds makes no call at all and yields
  the cached outputs in order.
\<close>

theorem run_cache_hit:
  "(cache_Get (cache e) clock = (output, True) \<longrightarrow>
      run e vs clock cursor = (e\<lparr>mapperOutput := output\<rparr>, vs, [], None))
   \<and> ((\<forall>(clock, cursor) \<in> set blks. snd (cache_Get (cache e) clock)) \<longrightarrow>
        run_blocks e blks
          = ((if blks = [] then e
              else e\<lparr>mapperOutput := fst (cache_Get (cache e) (fst (last blks)))\<rparr>),
             map (\<lambda>(clock, cursor). fst (cache_Get (cache e) clock)) blks, [], None))"
proof (intro conjI impI)
  assume "cache_Get (cache e) clock = (output, True)"
  then show "run e vs clock cursor = (e\<lparr>mapperOutput := output\<rparr>, vs, [], None)"
    by (simp add: run_def)
next
  assume "\<forall>(clock, cursor) \<in> set blks. snd (cache_Get (cache e) clock)"
  then show "run_blocks e blks
          = ((if blks = [] then e
              else e\<lparr>mapperOutput := fst (cache_Get (cache e) (fst (last blks)))\<rparr>),
             map (\<lambda>(clock, cursor). fst (cache_Get (cache e) clock)) blks, [], None)"
  proof (induction blks arbitrary: e)
    case Nil
    then show ?case by simp
  next
    case (Cons b rest)
    obtain clock cursor where b: "b = (clock, cursor)" by (cases b)
    with Cons.prems obtain out where g: "cache_Get (cache e) clock = (out, True)"
      by (cases "cache_Get (cache e) clock") auto
    let ?e1 = "e\<lparr>mapperOutput := out\<rparr>"
    have r: "run e Map.empty clock cursor = (?e1, Map.empty, [], None)"
      using g by (simp add: run_def)
    have c: "cache ?e1 = cache e" by simp
    from Cons.prems have "\<forall>(clock, cursor) \<in> set rest. snd (cache_Get (cache ?e1) clock)"
      by (simp add: c)
    from Cons.IH[OF this] show ?case
      by (simp add: b r g)
  qed
qed


text \<open>
  C7, witness: the example mapper at block 100, and over the blocks 100 and 101, all
  held by its cache.
\<close>

theorem run_cache_hit_witness:
  "run example_mapper [''sf.ethereum.type.v1.Block'' \<mapsto> Some [1]]
       \<lparr>Number = 100, Id = ''b100''\<rparr> ''c100''
     = (example_mapper\<lparr>mapperOutput := Some [7]\<rparr>,
        [''sf.ethereum.type.v1.Block'' \<mapsto> Some [1]], [], None)
   \<and> run_blocks example_mapper
        [(\<lparr>Number = 100, Id = ''b100''\<rparr>, ''c100''), (\<lparr>Number = 101, Id = ''b101''\<rparr>, ''c101'')]
     = (example_mapper\<lparr>mapperOutput := None\<rparr>, [Some [7], None], [], None)"
proof -
  have g: "cache_Get (cache example_mapper) \<lparr>Number = 100, Id = ''b100''\<rparr> = (Some [7], True)"
    "cache_Get (cache example_mapper) \<lparr>Number = 101, Id = ''b101''\<rparr> = (None, True)"
    by (simp_all add: example_mapper_def example_cache_def cache_Get_def)
  from run_cache_hit[of example_mapper "\<lparr>Number = 100, Id = ''b100''\<rparr>" "Some [7]"
      "[''sf.ethereum.type.v1.Block'' \<mapsto> Some [1]]" "''c100''"
      "[(\<lparr>Number = 100, Id = ''b100''\<rparr>, ''c100''), (\<lparr>Number = 101, Id = ''b101''\<rparr>, ''c101'')]"]
  show ?thesis by (simp add: g)
qed

section \<open>Properties of the max policy\<close>





















subsection \<open>Claim C3: the max policy\<close>



end
